theory Spec2Isabelle
  imports Complex_Main "HOL-Library.AList"
begin


section \<open>The cache layer of \<^verbatim>\<open>src/index.js\<close>\<close>

text \<open>
  The in-memory cache is a JavaScript \<^verbatim>\<open>Map\<close> from cache keys to entries
  \<^verbatim>\<open>{ data: responseData, timestamp: Date.now() }\<close>. A \<^verbatim>\<open>Map\<close> keeps its keys in
  insertion order and holds each key once; it is modelled as an association list,
  with \<open>map_of\<close> for \<^verbatim>\<open>cache.get\<close>, \<open>AList.update\<close> for \<^verbatim>\<open>cache.set\<close> (an existing key
  keeps its place, a new key goes to the end) and \<open>AList.delete\<close> for \<^verbatim>\<open>cache.delete\<close>.

  Times are the integer millisecond readings of \<^verbatim>\<open>Date.now()\<close>. The string that
  \<^verbatim>\<open>new Date().toISOString()\<close> renders is a built-in of the language; the model keeps
  the instant it renders, wrapped in \<open>ISOString\<close>.

  What a scraper returns is either an array of records or a single object; the
  elements and the object are type parameters of the cache layer, which never looks
  inside them.
\<close>

datatype iso8601 = ISOString int

datatype ('r, 'a) payload = Array "'r list" | Object 'a

text \<open>\<^verbatim>\<open>responseData = { status: 'success', timestamp: ..., data: freshData }\<close>\<close>

record ('r, 'a) envelope =
  status :: string
  timestamp :: iso8601
  data :: "('r, 'a) payload"

text \<open>The value stored under a key: \<^verbatim>\<open>{ data: responseData, timestamp: Date.now() }\<close>.\<close>

record ('r, 'a) entry =
  entry_data :: "('r, 'a) envelope"
  entry_timestamp :: int

type_synonym ('r, 'a) cache = "(string \<times> ('r, 'a) entry) list"

definition CACHE_DURATION :: int where
  "CACHE_DURATION = 5 * 60 * 1000"

text \<open>
  A thrown \<^verbatim>\<open>Error\<close> is kept as its \<^verbatim>\<open>message\<close>. A scraper is an asynchronous function
  that may reject; it is a function on the state \<open>'w\<close> of everything outside the cache
  (the network, the pages scraped, any counter of calls), returning either the error
  or the fresh data, and the new outside state. Not calling the scraper leaves \<open>'w\<close>
  as it was. The rest arguments \<^verbatim>\<open>...args\<close> are part of the scraper's closure: no
  caller passes any.
\<close>

type_synonym error = string

type_synonym ('r, 'a, 'w) scraper = "'w \<Rightarrow> (error + ('r, 'a) payload) \<times> 'w"

text \<open>
  The clock readings of one request, in the order the code takes them:
  \<^verbatim>\<open>Date.now()\<close> in the freshness test, \<^verbatim>\<open>new Date()\<close> for the envelope,
  \<^verbatim>\<open>Date.now()\<close> when the entry is stored, and \<^verbatim>\<open>new Date()\<close> for a 404 or 500
  body built by the route handler.
\<close>

record clock_reads =
  at_check :: int
  at_envelope :: int
  at_store :: int
  at_response :: int

text \<open>
  \<^verbatim>\<open>getCachedData\<close> (lines 22-46). The result is the returned envelope or the error
  the scraper threw, with the cache and the outside state after the call.
\<close>

definition getCachedData ::
  "string \<Rightarrow> ('r, 'a, 'w) scraper \<Rightarrow> clock_reads \<Rightarrow> ('r, 'a) cache \<Rightarrow> 'w
    \<Rightarrow> (error + ('r, 'a) envelope) \<times> ('r, 'a) cache \<times> 'w" where
  "getCachedData cacheKey scraperFunction clk cache w =
    (case map_of cache cacheKey of
       Some cached \<Rightarrow>
         if at_check clk - entry_timestamp cached < CACHE_DURATION
         then (Inr (entry_data cached), cache, w)
         else (case scraperFunction w of
                 (Inl err, w') \<Rightarrow> (Inl err, cache, w')
               | (Inr freshData, w') \<Rightarrow>
                   (let responseData = \<lparr>status = ''success'',
                          timestamp = ISOString (at_envelope clk), data = freshData\<rparr>
                    in (Inr responseData,
                        AList.update cacheKey
                          \<lparr>entry_data = responseData, entry_timestamp = at_store clk\<rparr> cache,
                        w')))
     | None \<Rightarrow>
         (case scraperFunction w of
            (Inl err, w') \<Rightarrow> (Inl err, cache, w')
          | (Inr freshData, w') \<Rightarrow>
              (let responseData = \<lparr>status = ''success'',
                     timestamp = ISOString (at_envelope clk), data = freshData\<rparr>
               in (Inr responseData,
                   AList.update cacheKey
                     \<lparr>entry_data = responseData, entry_timestamp = at_store clk\<rparr> cache,
                   w'))))"

text \<open>
  The JSON body a route sends, with the HTTP status it is sent under. A key that the
  JavaScript object does not have, or whose value is \<^verbatim>\<open>undefined\<close> (which
  \<^verbatim>\<open>JSON.stringify\<close> drops), is \<open>None\<close>.
\<close>

record ('r, 'a) body =
  body_status :: string
  body_message :: "string option"
  body_timestamp :: "iso8601 option"
  body_data :: "('r, 'a) payload option"
  body_count :: "nat option"
  body_error :: "string option"

type_synonym ('r, 'a) response = "nat \<times> ('r, 'a) body"

text \<open>The object spread \<^verbatim>\<open>{ ...result }\<close> of an envelope: its three keys and no other.\<close>

definition spread :: "('r, 'a) envelope \<Rightarrow> ('r, 'a) body" where
  "spread result =
    \<lparr>body_status = status result, body_message = None,
     body_timestamp = Some (timestamp result), body_data = Some (data result),
     body_count = None, body_error = None\<rparr>"

text \<open>
  \<^verbatim>\<open>handleErrorWithCacheFallback\<close> (lines 55-73); \<^verbatim>\<open>res.json\<close> alone answers with
  status 200.
\<close>

definition handleErrorWithCacheFallback ::
  "string \<Rightarrow> error \<Rightarrow> string \<Rightarrow> int \<Rightarrow> ('r, 'a) cache \<Rightarrow> ('r, 'a) response" where
  "handleErrorWithCacheFallback cacheKey err errorMessage now cache =
    (case map_of cache cacheKey of
       Some cached \<Rightarrow>
         (200, (spread (entry_data cached))
                 \<lparr>body_message := Some ''Serving cached data due to fetch error''\<rparr>)
     | None \<Rightarrow>
         (500, \<lparr>body_status = ''error'', body_message = Some errorMessage,
                body_timestamp = Some (ISOString now), body_data = None,
                body_count = None, body_error = Some err\<rparr>))"

text \<open>
  \<^verbatim>\<open>result.data.length\<close>: the length of an array; an object of the scrapers has no
  such key, and the read gives \<^verbatim>\<open>undefined\<close>.
\<close>

fun data_length :: "('r, 'a) payload \<Rightarrow> nat option" where
  "data_length (Array xs) = Some (length xs)"
| "data_length (Object _) = None"

text \<open>
  The five list routes (\<^verbatim>\<open>/trending-coins\<close>, \<^verbatim>\<open>/trending-categories\<close>,
  \<^verbatim>\<open>/top-gainers\<close>, \<^verbatim>\<open>/top-losers\<close>, \<^verbatim>\<open>/all-time-highs\<close>, lines 79-187) differ in
  the key, the scraper and the two messages only.
\<close>

definition list_route ::
  "string \<Rightarrow> ('r, 'a, 'w) scraper \<Rightarrow> string \<Rightarrow> string \<Rightarrow> clock_reads
    \<Rightarrow> ('r, 'a) cache \<Rightarrow> 'w \<Rightarrow> ('r, 'a) response \<times> ('r, 'a) cache \<times> 'w" where
  "list_route cacheKey scraperFunction notFound errorMessage clk cache w =
    (case getCachedData cacheKey scraperFunction clk cache w of
       (Inr result, cache', w') \<Rightarrow>
         (if data_length (data result) = Some 0
          then ((404, \<lparr>body_status = ''error'', body_message = Some notFound,
                        body_timestamp = Some (ISOString (at_response clk)),
                        body_data = None, body_count = None, body_error = None\<rparr>),
                cache', w')
          else ((200, (spread result)\<lparr>body_count := data_length (data result)\<rparr>),
                cache', w'))
     | (Inl err, cache', w') \<Rightarrow>
         (handleErrorWithCacheFallback cacheKey err errorMessage (at_response clk) cache',
          cache', w'))"

text \<open>
  \<^verbatim>\<open>cleanupCache\<close> (lines 246-260). The loop visits the entries of the map; deleting
  the entry being visited leaves the rest of the iteration as it was. The model walks
  the entries the map had on entry and deletes from the current map. The function
  returns nothing; the model returns the map and \<^verbatim>\<open>cleanedCount\<close>, which the code
  logs when it is positive.
\<close>

fun cleanup_loop ::
  "int \<Rightarrow> (string \<times> ('r, 'a) entry) list \<Rightarrow> ('r, 'a) cache \<Rightarrow> nat \<Rightarrow> ('r, 'a) cache \<times> nat" where
  "cleanup_loop now [] cache cleanedCount = (cache, cleanedCount)"
| "cleanup_loop now ((key, v) # rest) cache cleanedCount =
    (if now - entry_timestamp v > CACHE_DURATION * 2
     then cleanup_loop now rest (AList.delete key cache) (cleanedCount + 1)
     else cleanup_loop now rest cache cleanedCount)"

definition cleanupCache :: "int \<Rightarrow> ('r, 'a) cache \<Rightarrow> ('r, 'a) cache \<times> nat" where
  "cleanupCache now cache = cleanup_loop now cache cache 0"

text \<open>\<^verbatim>\<open>DELETE /cache\<close> (lines 234-243): the number of entries cleared and the empty map.\<close>

definition clear_cache :: "('r, 'a) cache \<Rightarrow> nat \<times> ('r, 'a) cache" where
  "clear_cache cache = (length cache, [])"

text \<open>
  A JavaScript number is an IEEE 754 double. The model keeps the finite doubles as the
  rationals they are, and the two infinities and \<^verbatim>\<open>NaN\<close> as values of their own. The
  sign of zero is not kept: \<open>Num 0\<close> stands for both zeros.
\<close>

datatype number = NaN | Infinity bool | Num rat

text \<open>The object \<^verbatim>\<open>scrapeBTCDominance\<close> returns (lines 689-692).\<close>

record btc_dominance =
  btcDominance :: number
  btcDominanceFormatted :: string

text \<open>
  \<^verbatim>\<open>!result.data.btcDominance\<close>: true of \<^verbatim>\<open>NaN\<close> and of zero, and of the
  \<^verbatim>\<open>undefined\<close> that reading the key from an array gives.
\<close>

fun no_dominance :: "('r, btc_dominance) payload \<Rightarrow> bool" where
  "no_dominance (Array _) = True"
| "no_dominance (Object d) = (btcDominance d = NaN \<or> btcDominance d = Num 0)"

text \<open>\<^verbatim>\<open>/btc-dominance\<close> (lines 189-206): the envelope is sent as it is.\<close>

definition btc_route ::
  "('r, btc_dominance, 'w) scraper \<Rightarrow> clock_reads \<Rightarrow> ('r, btc_dominance) cache \<Rightarrow> 'w
    \<Rightarrow> ('r, btc_dominance) response \<times> ('r, btc_dominance) cache \<times> 'w" where
  "btc_route scraperFunction clk cache w =
    (case getCachedData ''btc-dominance'' scraperFunction clk cache w of
       (Inr result, cache', w') \<Rightarrow>
         (if no_dominance (data result)
          then ((404, \<lparr>body_status = ''error'',
                        body_message = Some ''No BTC dominance data found'',
                        body_timestamp = Some (ISOString (at_response clk)),
                        body_data = None, body_count = None, body_error = None\<rparr>),
                cache', w')
          else ((200, spread result), cache', w'))
     | (Inl err, cache', w') \<Rightarrow>
         (handleErrorWithCacheFallback ''btc-dominance'' err
            ''Error fetching BTC dominance data'' (at_response clk) cache',
          cache', w'))"

text \<open>
  The operations that touch the map, as events of a run of the process: a call of
  \<^verbatim>\<open>getCachedData\<close> with the outcome its scraper had, a pass of \<^verbatim>\<open>cleanupCache\<close>, and
  \<^verbatim>\<open>DELETE /cache\<close>. The process starts with the empty map (line 12).
\<close>

datatype ('r, 'a) event =
    Request string clock_reads "error + ('r, 'a) payload"
  | Sweep int
  | Clear

fun step :: "('r, 'a) cache \<Rightarrow> ('r, 'a) event \<Rightarrow> ('r, 'a) cache" where
  "step cache (Request cacheKey clk outcome) =
     fst (snd (getCachedData cacheKey (\<lambda>w. (outcome, w)) clk cache ()))"
| "step cache (Sweep now) = fst (cleanupCache now cache)"
| "step cache Clear = snd (clear_cache cache)"

definition run :: "('r, 'a) event list \<Rightarrow> ('r, 'a) cache" where
  "run evs = foldl step [] evs"

text \<open>
  \<^verbatim>\<open>/cache-status\<close> (lines 209-231), the list \<^verbatim>\<open>cacheInfo\<close> it sends. The loop reads
  \<^verbatim>\<open>Date.now()\<close> once for each entry; the model takes one reading for the pass.
  \<^verbatim>\<open>Math.floor\<close> of the quotient is \<open>div\<close> on the integers.
\<close>

record cache_info =
  info_key :: string
  ageSeconds :: int
  remainingSeconds :: int
  expired :: bool

definition cache_status :: "int \<Rightarrow> ('r, 'a) cache \<Rightarrow> cache_info list" where
  "cache_status now cache =
    map (\<lambda>(key, v).
      (let age = (now - entry_timestamp v) div 1000;
           remainingTime = max 0 (CACHE_DURATION div 1000 - age)
       in \<lparr>info_key = key, ageSeconds = age, remainingSeconds = remainingTime,
           expired = (age * 1000 > CACHE_DURATION)\<rparr>)) cache"

section \<open>Numbers and their strings\<close>

text \<open>
  The built-ins of the language that the conversion functions call, on the values
  they can be called with. A string is a list of characters; the code of
  \<^verbatim>\<open>src/index.js\<close> treats every character outside the ASCII digits, \<^verbatim>\<open>.\<close>, \<^verbatim>\<open>-\<close>
  and the letters of its scale words alike.
\<close>

subsection \<open>Rounding to a double\<close>

text \<open>The number of binary digits of a positive integer.\<close>

function bits :: "int \<Rightarrow> nat" where
  "bits n = (if n \<le> 0 then 0 else Suc (bits (n div 2)))"
  by pat_completeness auto
termination
  by (relation "measure nat") auto

declare bits.simps [simp del]

text \<open>Powers of two and of ten with an integer exponent.\<close>

definition pow2 :: "int \<Rightarrow> rat" where
  "pow2 e = 2 powi e"

definition pow10 :: "int \<Rightarrow> rat" where
  "pow10 e = 10 powi e"

text \<open>The binary exponent \<open>e\<close> of a non-zero rational: \<open>2\<^sup>e \<le> |x| < 2\<^sup>e\<^sup>+\<^sup>1\<close>.\<close>

definition ilog2 :: "rat \<Rightarrow> int" where
  "ilog2 x =
    (let (p, q) = quotient_of \<bar>x\<bar>;
         e0 = int (bits p) - int (bits q)
     in if pow2 e0 \<le> \<bar>x\<bar> then e0 else e0 - 1)"

text \<open>Rounding to the nearest integer, a tie going to the even one.\<close>

definition roundTiesToEven :: "rat \<Rightarrow> int" where
  "roundTiesToEven x =
    (let f = \<lfloor>x\<rfloor>; d = x - of_int f
     in if d < 1 / 2 then f else if 1 / 2 < d then f + 1 else if even f then f else f + 1)"

text \<open>
  The Number value for a rational \<open>x\<close>: the double nearest to \<open>x\<close>, a tie going to the
  even significand. A double has 53 significant bits where it is normal, and is a
  multiple of \<open>2\<^sup>-\<^sup>1\<^sup>0\<^sup>7\<^sup>4\<close> below \<open>2\<^sup>-\<^sup>1\<^sup>0\<^sup>2\<^sup>2\<close>; what rounds to \<open>2\<^sup>1\<^sup>0\<^sup>2\<^sup>4\<close> or beyond is
  an infinity.
\<close>

definition number_value :: "rat \<Rightarrow> number" where
  "number_value x =
    (if x = 0 then Num 0
     else let e = max (ilog2 x) (- 1022);
              ulp = pow2 (e - 52);
              y = of_int (roundTiesToEven (x / ulp)) * ulp
          in if 2 ^ 1024 \<le> \<bar>y\<bar> then Infinity (x < 0) else Num y)"

subsection \<open>Arithmetic and comparison\<close>

text \<open>\<^verbatim>\<open>a * b\<close>\<close>

fun times_number :: "number \<Rightarrow> number \<Rightarrow> number" where
  "times_number (Num a) (Num b) = number_value (a * b)"
| "times_number (Num a) (Infinity s) =
     (if a = 0 then NaN else Infinity ((a < 0) \<noteq> s))"
| "times_number (Infinity s) (Num b) =
     (if b = 0 then NaN else Infinity (s \<noteq> (b < 0)))"
| "times_number (Infinity s) (Infinity t) = Infinity (s \<noteq> t)"
| "times_number NaN _ = NaN"
| "times_number _ NaN = NaN"

text \<open>\<^verbatim>\<open>a / b\<close>; a zero divisor is taken as the positive zero.\<close>

fun divide_number :: "number \<Rightarrow> number \<Rightarrow> number" where
  "divide_number (Num a) (Num b) =
     (if b = 0 then (if a = 0 then NaN else Infinity (a < 0)) else number_value (a / b))"
| "divide_number (Num a) (Infinity s) = Num 0"
| "divide_number (Infinity s) (Num b) = Infinity (s \<noteq> (b < 0))"
| "divide_number (Infinity s) (Infinity t) = NaN"
| "divide_number NaN _ = NaN"
| "divide_number _ NaN = NaN"

text \<open>\<^verbatim>\<open>a >= b\<close>: false when either side is \<^verbatim>\<open>NaN\<close>.\<close>

fun ge_number :: "number \<Rightarrow> number \<Rightarrow> bool" where
  "ge_number (Num a) (Num b) = (b \<le> a)"
| "ge_number (Num a) (Infinity s) = s"
| "ge_number (Infinity s) (Num b) = (\<not> s)"
| "ge_number (Infinity s) (Infinity t) = (\<not> s \<or> t)"
| "ge_number NaN _ = False"
| "ge_number _ NaN = False"

subsection \<open>Digits\<close>

definition isDigit :: "char \<Rightarrow> bool" where
  "isDigit c \<longleftrightarrow> c \<in> set ''0123456789''"

definition digit_char :: "int \<Rightarrow> char" where
  "digit_char d = ''0123456789'' ! nat d"

definition digit_value :: "char \<Rightarrow> int" where
  "digit_value c = of_char c - 48"

text \<open>The decimal digits of a non-negative integer, with no leading zero.\<close>

function decimal :: "int \<Rightarrow> string" where
  "decimal n = (if n < 10 then [digit_char n] else decimal (n div 10) @ [digit_char (n mod 10)])"
  by pat_completeness auto
termination
  by (relation "measure nat") auto

declare decimal.simps [simp del]

text \<open>The number that a string of digits writes.\<close>

definition digits_value :: "string \<Rightarrow> int" where
  "digits_value ds = foldl (\<lambda>a c. 10 * a + digit_value c) 0 ds"

text \<open>The digits of \<open>n\<close>, padded with zeros on the left to at least \<open>w\<close> of them.\<close>

definition padded :: "nat \<Rightarrow> int \<Rightarrow> string" where
  "padded w n = replicate (w - length (decimal n)) CHR ''0'' @ decimal n"

subsection \<open>\<^verbatim>\<open>parseFloat\<close> after the replace\<close>

text \<open>
  \<^verbatim>\<open>text.replace(/[^\d.-]/g, '')\<close>: every character that is not a digit, a point or
  a minus sign is removed.
\<close>

definition strip :: "string \<Rightarrow> string" where
  "strip text = filter (\<lambda>c. isDigit c \<or> c = CHR ''.'' \<or> c = CHR ''-'') text"

text \<open>
  Every call of \<^verbatim>\<open>parseFloat\<close> in the source is on the result of that replace, a
  string of digits, points and minus signs. On such a string the built-in reads the
  longest prefix that is a decimal literal: an optional minus sign, then digits with
  an optional point and fraction, or a point and at least one digit. It stops at the
  first character that does not continue the literal, and gives \<^verbatim>\<open>NaN\<close> when there
  is no such prefix. The value is the Number value for the literal.
\<close>

definition parseFloat :: "string \<Rightarrow> number" where
  "parseFloat s =
    (let neg = (take 1 s = ''-'');
         r = (if neg then drop 1 s else s);
         ip = takeWhile isDigit r;
         r1 = dropWhile isDigit r;
         fp = (if take 1 r1 = ''.'' then takeWhile isDigit (drop 1 r1) else [])
     in if ip = [] \<and> fp = [] then NaN
        else let mv = of_int (digits_value (ip @ fp)) / 10 ^ length fp
             in number_value (if neg then - mv else mv))"

subsection \<open>\<^verbatim>\<open>Number.prototype.toString\<close>\<close>

text \<open>The decimal exponent \<open>n\<close> of a positive rational: \<open>10\<^sup>n\<^sup>-\<^sup>1 \<le> x < 10\<^sup>n\<close>.\<close>

definition digits10 :: "rat \<Rightarrow> int" where
  "digits10 x =
    (if 1 \<le> x then int (length (decimal \<lfloor>x\<rfloor>))
     else let d = int (length (decimal \<lfloor>1 / x\<rfloor>))
          in if pow10 (1 - d) \<le> x then 2 - d else 1 - d)"

text \<open>
  The digits \<open>s\<close> and the exponent \<open>n\<close> of the shortest decimal that reads back as the
  double \<open>x > 0\<close>: with \<open>k\<close> digits, the two \<open>k\<close>-digit decimals around \<open>x\<close> are tried, the
  nearer first; of two equally near the even one is taken. Seventeen digits always
  read back.
\<close>

definition candidates :: "rat \<Rightarrow> int \<Rightarrow> nat \<Rightarrow> (int \<times> int) list" where
  "candidates x n k =
    (let scale = pow10 (n - int k);
         lo = \<lfloor>x / scale\<rfloor>;
         hi = lo + 1;
         c_lo = (lo, n);
         c_hi = (if hi = 10 ^ k then (10 ^ (k - 1), n + 1) else (hi, n));
         d_lo = x - of_int lo * scale;
         d_hi = of_int hi * scale - x
     in if d_lo < d_hi \<or> (d_lo = d_hi \<and> even lo) then [c_lo, c_hi] else [c_hi, c_lo])"

fun shortest :: "rat \<Rightarrow> int \<Rightarrow> nat \<Rightarrow> nat \<Rightarrow> nat \<times> int \<times> int" where
  "shortest x n k 0 = (case hd (candidates x n k) of (s, n') \<Rightarrow> (k, s, n'))"
| "shortest x n k (Suc fuel) =
    (case filter (\<lambda>(s, n'). number_value (of_int s * pow10 (n' - int k)) = Num x)
            (candidates x n k) of
       (s, n') # _ \<Rightarrow> (k, s, n')
     | [] \<Rightarrow> shortest x n (Suc k) fuel)"

definition toString_positive :: "rat \<Rightarrow> string" where
  "toString_positive x =
    (case shortest x (digits10 x) 1 16 of (k, s, n) \<Rightarrow>
      (let ds = decimal s;
           ex = (if 0 \<le> n - 1 then ''+'' else ''-'') @ decimal \<bar>n - 1\<bar>
       in if int k \<le> n \<and> n \<le> 21 then ds @ replicate (nat n - k) CHR ''0''
          else if 0 < n \<and> n \<le> 21 then take (nat n) ds @ ''.'' @ drop (nat n) ds
          else if - 6 < n \<and> n \<le> 0 then ''0.'' @ replicate (nat (- n)) CHR ''0'' @ ds
          else if k = 1 then ds @ ''e'' @ ex
          else take 1 ds @ ''.'' @ drop 1 ds @ ''e'' @ ex))"

fun toString :: "number \<Rightarrow> string" where
  "toString NaN = ''NaN''"
| "toString (Infinity s) = (if s then ''-Infinity'' else ''Infinity'')"
| "toString (Num x) =
    (if x = 0 then ''0''
     else if x < 0 then ''-'' @ toString_positive (- x)
     else toString_positive x)"

subsection \<open>\<^verbatim>\<open>Number.prototype.toFixed\<close> with two digits\<close>

text \<open>
  \<^verbatim>\<open>x.toFixed(2)\<close>: from \<open>10\<^sup>2\<^sup>1\<close> on the result is that of \<^verbatim>\<open>toString\<close>; below, the
  integer \<open>n\<close> nearest to \<open>100 x\<close> (the larger of two equally near) is written with a
  point before its last two digits.
\<close>

fun toFixed2 :: "number \<Rightarrow> string" where
  "toFixed2 NaN = ''NaN''"
| "toFixed2 (Infinity s) = toString (Infinity s)"
| "toFixed2 (Num x) =
    (if 10 ^ 21 \<le> \<bar>x\<bar> then toString (Num x)
     else let n = \<lfloor>\<bar>x\<bar> * 100 + 1 / 2\<rfloor>
          in (if x < 0 then ''-'' else '''') @ decimal (n div 100) @ ''.'' @ padded 2 (n mod 100))"

subsection \<open>\<^verbatim>\<open>Number.prototype.toLocaleString\<close>\<close>

text \<open>
  \<^verbatim>\<open>value.toLocaleString()\<close> is called with no locale, and formats for the locale of
  the host. The model is the format of the locale \<^verbatim>\<open>en-US\<close>, the default of Node:
  at most three fraction digits, rounded half away from zero, no trailing zeros in
  the fraction, and the integer digits in groups of three with commas between. The
  infinity is written with the three bytes of the sign U+221E.
\<close>

fun group3 :: "string \<Rightarrow> string" where
  "group3 ds =
    (if length ds \<le> 3 then ds
     else group3 (take (length ds - 3) ds) @ '','' @ drop (length ds - 3) ds)"

declare group3.simps [simp del]

definition fraction3 :: "int \<Rightarrow> string" where
  "fraction3 m =
    (if m = 0 then ''''
     else ''.'' @ rev (dropWhile (\<lambda>c. c = CHR ''0'') (rev (padded 3 m))))"

fun toLocaleString :: "number \<Rightarrow> string" where
  "toLocaleString NaN = ''NaN''"
| "toLocaleString (Infinity s) =
    (if s then ''-'' else '''') @ [char_of (226 :: nat), char_of (136 :: nat), char_of (158 :: nat)]"
| "toLocaleString (Num x) =
    (let n = \<lfloor>\<bar>x\<bar> * 1000 + 1 / 2\<rfloor>
     in (if x < 0 then ''-'' else '''') @ group3 (decimal (n div 1000)) @ fraction3 (n mod 1000))"

subsection \<open>The conversion functions of \<^verbatim>\<open>src/index.js\<close>\<close>

text \<open>\<^verbatim>\<open>text.includes(pattern)\<close>: the pattern occurs in the text, at some position.\<close>

definition startsWith :: "string \<Rightarrow> string \<Rightarrow> bool" where
  "startsWith text pattern \<longleftrightarrow> take (length pattern) text = pattern"

fun includes_str :: "string \<Rightarrow> string \<Rightarrow> bool" where
  "includes_str [] pattern = (pattern = [])"
| "includes_str (c # cs) pattern = (startsWith (c # cs) pattern \<or> includes_str cs pattern)"

text \<open>\<^verbatim>\<open>marketCapNumToText\<close> (lines 700-710)\<close>

definition marketCapNumToText :: "number \<Rightarrow> string" where
  "marketCapNumToText v =
    (if ge_number v (Num 1000000000000)
     then ''$'' @ toFixed2 (divide_number v (Num 1000000000000)) @ '' trillion''
     else if ge_number v (Num 1000000000)
     then ''$'' @ toFixed2 (divide_number v (Num 1000000000)) @ '' billion''
     else if ge_number v (Num 1000000)
     then ''$'' @ toFixed2 (divide_number v (Num 1000000)) @ '' million''
     else ''$'' @ toLocaleString v)"

text \<open>\<^verbatim>\<open>marketCapTextToNum\<close> (lines 717-727)\<close>

definition marketCapTextToNum :: "string \<Rightarrow> number" where
  "marketCapTextToNum marketCapText =
    (if includes_str marketCapText ''trillion'' \<or> includes_str marketCapText ''T''
     then times_number (parseFloat (strip marketCapText)) (Num 1000000000000)
     else if includes_str marketCapText ''million'' \<or> includes_str marketCapText ''M''
     then times_number (parseFloat (strip marketCapText)) (Num 1000000)
     else if includes_str marketCapText ''billion'' \<or> includes_str marketCapText ''B''
     then times_number (parseFloat (strip marketCapText)) (Num 1000000000)
     else parseFloat (strip marketCapText))"

section \<open>The ranking scrapers of \<^verbatim>\<open>src/index.js\<close>\<close>

text \<open>
  \<^verbatim>\<open>scrapeTopGainers\<close>, \<^verbatim>\<open>scrapeTopLosers\<close> and \<^verbatim>\<open>allTimeHighs\<close> (lines 421-651) get a
  page with \<^verbatim>\<open>axios\<close>, select the rows of a table with \<^verbatim>\<open>cheerio\<close> and walk them
  with \<^verbatim>\<open>.each\<close>. What the libraries do is outside the repository: the GET of a URL
  and the selection of the rows are one function of the outside state, which fails
  with the error \<^verbatim>\<open>axios\<close> threw or gives the rows in document order. A row is known
  by what the callback reads from it: whether it has the class
  \<^verbatim>\<open>table__sponsored-row\<close>, and the trimmed texts under the selectors.
\<close>

record row =
  sponsored :: bool
  name_text :: string
  symbol_text :: string
  price_text :: string
  marketCap_text :: string
  change_text :: string
  semibold_text :: string

type_synonym 'w fetch_rows = "string \<Rightarrow> string \<Rightarrow> 'w \<Rightarrow> (error + row list) \<times> 'w"

text \<open>
  The objects pushed. The gainers and the losers carry the market cap, the all-time
  highs the all-time high; the other six keys are common.
\<close>

record listing =
  name :: string
  symbol :: string
  price :: number
  priceFormatted :: string
  change24h :: number
  change24hFormatted :: string

record coin = listing +
  marketCap :: number
  marketCapFormatted :: string

record high = listing +
  allTimeHigh :: number
  allTimeHighFormatted :: string

datatype market_record = Coin coin | High high

text \<open>
  The body of the callback of \<^verbatim>\<open>scrapeTopGainers\<close> and \<^verbatim>\<open>scrapeTopLosers\<close> after the
  test for a sponsored row (lines 446-486 and 524-564, the same text). The template
  \<^verbatim>\<open>`$${price}`\<close> is \<^verbatim>\<open>$\<close> before \<^verbatim>\<open>toString\<close> of the number. The URL and the image
  URL are computed and not used.
\<close>

definition coin_of_row :: "row \<Rightarrow> market_record" where
  "coin_of_row element =
    (let price = parseFloat (strip (price_text element));
         priceFormatted = ''$'' @ toString price;
         marketCap = marketCapTextToNum (marketCap_text element);
         marketCapText = marketCapNumToText marketCap;
         changePercentageText = change_text element;
         changePercentage = parseFloat (strip changePercentageText)
     in Coin \<lparr>name = name_text element, symbol = symbol_text element, price = price,
              priceFormatted = priceFormatted, change24h = changePercentage,
              change24hFormatted = changePercentageText,
              marketCap = marketCap, marketCapFormatted = marketCapText\<rparr>)"

text \<open>The same for \<^verbatim>\<open>allTimeHighs\<close> (lines 599-644).\<close>

definition high_of_row :: "row \<Rightarrow> market_record" where
  "high_of_row element =
    (let price = parseFloat (strip (price_text element));
         priceFormatted = ''$'' @ toString price;
         changePercentageText = change_text element;
         changePercentage = parseFloat (strip changePercentageText);
         allTimeHigh = parseFloat (strip (semibold_text element));
         allTimeHighFormatted = ''$'' @ toFixed2 allTimeHigh
     in High \<lparr>name = name_text element, symbol = symbol_text element, price = price,
              priceFormatted = priceFormatted, change24h = changePercentage,
              change24hFormatted = changePercentageText,
              allTimeHigh = allTimeHigh, allTimeHighFormatted = allTimeHighFormatted\<rparr>)"

text \<open>
  The loop \<^verbatim>\<open>.each((index, element) => ...)\<close>, the same in the three scrapers but for
  the object pushed: a sponsored row returns \<^verbatim>\<open>true\<close> and the walk goes on; any other
  row adds one to the counter, pushes its object, and returns \<^verbatim>\<open>false\<close>, which ends
  the walk, once the counter has reached 10.
\<close>

fun each_row :: "(row \<Rightarrow> 'r) \<Rightarrow> row list \<Rightarrow> 'r list \<Rightarrow> nat \<Rightarrow> 'r list" where
  "each_row push [] acc num = acc"
| "each_row push (element # rest) acc num =
    (if sponsored element then each_row push rest acc num
     else if num + 1 \<ge> 10 then acc @ [push element]
     else each_row push rest (acc @ [push element]) (num + 1))"

definition scrapeTopGainers :: "'w fetch_rows \<Rightarrow> (market_record, 'a, 'w) scraper" where
  "scrapeTopGainers fetch w =
    (case fetch ''https://coinranking.com/coins/gainers'' ''#coins-table tbody tr'' w of
       (Inl err, w') \<Rightarrow> (Inl err, w')
     | (Inr rows, w') \<Rightarrow> (Inr (Array (each_row coin_of_row rows [] 0)), w'))"

definition scrapeTopLosers :: "'w fetch_rows \<Rightarrow> (market_record, 'a, 'w) scraper" where
  "scrapeTopLosers fetch w =
    (case fetch ''https://coinranking.com/coins/losers'' ''#coins-table tbody tr'' w of
       (Inl err, w') \<Rightarrow> (Inl err, w')
     | (Inr rows, w') \<Rightarrow> (Inr (Array (each_row coin_of_row rows [] 0)), w'))"

definition allTimeHighs :: "'w fetch_rows \<Rightarrow> (market_record, 'a, 'w) scraper" where
  "allTimeHighs fetch w =
    (case fetch ''https://coinranking.com/coins/all-time-highs''
            ''#all-time-highs-table tbody tr'' w of
       (Inl err, w') \<Rightarrow> (Inl err, w')
     | (Inr rows, w') \<Rightarrow> (Inr (Array (each_row high_of_row rows [] 0)), w'))"

text \<open>The three routes that serve them (lines 123-187).\<close>

definition top_gainers_route ::
  "'w fetch_rows \<Rightarrow> clock_reads \<Rightarrow> (market_record, 'a) cache \<Rightarrow> 'w
    \<Rightarrow> (market_record, 'a) response \<times> (market_record, 'a) cache \<times> 'w" where
  "top_gainers_route fetch =
    list_route ''top-gainers'' (scrapeTopGainers fetch)
      ''No top gainers found'' ''Error fetching top gainers data''"

definition top_losers_route ::
  "'w fetch_rows \<Rightarrow> clock_reads \<Rightarrow> (market_record, 'a) cache \<Rightarrow> 'w
    \<Rightarrow> (market_record, 'a) response \<times> (market_record, 'a) cache \<times> 'w" where
  "top_losers_route fetch =
    list_route ''top-losers'' (scrapeTopLosers fetch)
      ''No top losers found'' ''Error fetching top losers data''"

definition all_time_highs_route ::
  "'w fetch_rows \<Rightarrow> clock_reads \<Rightarrow> (market_record, 'a) cache \<Rightarrow> 'w
    \<Rightarrow> (market_record, 'a) response \<times> (market_record, 'a) cache \<times> 'w" where
  "all_time_highs_route fetch =
    list_route ''all-time-highs'' (allTimeHighs fetch)
      ''No all-time highs data found'' ''Error fetching all-time highs data''"

section \<open>The scale detection as the specification words it\<close>

text \<open>
  The specification describes the scale detection of \<^verbatim>\<open>textToNumber\<close> as
  case-insensitive, first match wins, in the order trillion or T, billion or B,
  million or M, and no match as a factor of one. This is that description, to be
  compared with \<open>marketCapTextToNum\<close>; it is not taken from the source.
\<close>

definition lower_char :: "char \<Rightarrow> char" where
  "lower_char c =
    (case map_of (zip ''ABCDEFGHIJKLMNOPQRSTUVWXYZ'' ''abcdefghijklmnopqrstuvwxyz'') c of
       Some l \<Rightarrow> l
     | None \<Rightarrow> c)"

definition spec_scale :: "string \<Rightarrow> rat" where
  "spec_scale t =
    (let l = map lower_char t
     in if includes_str l ''trillion'' \<or> includes_str l ''t'' then 1000000000000
        else if includes_str l ''billion'' \<or> includes_str l ''b'' then 1000000000
        else if includes_str l ''million'' \<or> includes_str l ''m'' then 1000000
        else 1)"

definition spec_textToNumber :: "string \<Rightarrow> number" where
  "spec_textToNumber t = times_number (parseFloat (strip t)) (Num (spec_scale t))"


section \<open>Properties of the cache layer\<close>

subsection \<open>The paths of \<^verbatim>\<open>getCachedData\<close>\<close>

lemma getCachedData_cases:
  "getCachedData key scraper clk cache w =
    (if (\<exists>e. map_of cache key = Some e \<and> at_check clk - entry_timestamp e < CACHE_DURATION)
     then (Inr (entry_data (the (map_of cache key))), cache, w)
     else (case scraper w of
             (Inl err, w') \<Rightarrow> (Inl err, cache, w')
           | (Inr freshData, w') \<Rightarrow>
               (Inr \<lparr>status = ''success'', timestamp = ISOString (at_envelope clk), data = freshData\<rparr>,
                AList.update key \<lparr>entry_data = \<lparr>status = ''success'', timestamp = ISOString (at_envelope clk), data = freshData\<rparr>,
                   entry_timestamp = at_store clk\<rparr> cache, w')))"
  by (auto simp: getCachedData_def Let_def split: option.splits prod.splits sum.splits)

lemma getCachedData_stored:
  assumes "getCachedData key scraper clk cache w = (Inr env, cache', w')"
  shows "\<exists>e. map_of cache' key = Some e \<and> entry_data e = env"
  using assms
  by (auto simp: getCachedData_cases AList.update_conv' split: if_splits prod.splits sum.splits)

lemma getCachedData_world:
  "snd (snd (getCachedData key scraper clk cache w)) \<in> {w, snd (scraper w)}"
  by (auto simp: getCachedData_cases split: if_splits prod.splits sum.splits)

subsection \<open>Where an entry comes from\<close>

lemma map_of_cleanup_loop:
  "map_of (fst (cleanup_loop now es cache n)) k = Some e \<Longrightarrow> map_of cache k = Some e"
proof (induction es arbitrary: cache n)
  case Nil
  then show ?case by simp
next
  case (Cons a es)
  obtain k' v where a: "a = (k', v)" by (cases a)
  show ?case
  proof (cases "now - entry_timestamp v > CACHE_DURATION * 2")
    case True
    with Cons.prems have "map_of (fst (cleanup_loop now es (AList.delete k' cache) (n + 1))) k = Some e"
      by (simp add: a)
    then have "map_of (AList.delete k' cache) k = Some e" by (rule Cons.IH)
    then show ?thesis by (simp add: AList.delete_conv' split: if_splits)
  next
    case False
    with Cons.prems show ?thesis by (simp add: a Cons.IH)
  qed
qed

lemma step_origin:
  assumes "map_of (step cache ev) k = Some e"
  shows "map_of cache k = Some e \<or>
    (\<exists>clk d. ev = Request k clk (Inr d) \<and>
       entry_data e = \<lparr>status = ''success'', timestamp = ISOString (at_envelope clk), data = d\<rparr>)"
proof (cases ev)
  case (Request key clk outcome)
  with assms show ?thesis
    by (auto simp: getCachedData_cases AList.update_conv' split: if_splits sum.splits)
next
  case (Sweep now)
  with assms show ?thesis by (auto simp: cleanupCache_def dest: map_of_cleanup_loop)
next
  case Clear
  with assms show ?thesis by (simp add: clear_cache_def)
qed

lemma run_origin:
  "map_of (run evs) k = Some e \<Longrightarrow>
    \<exists>clk d. Request k clk (Inr d) \<in> set evs \<and>
       entry_data e = \<lparr>status = ''success'', timestamp = ISOString (at_envelope clk), data = d\<rparr>"
proof (induction evs arbitrary: e rule: rev_induct)
  case Nil
  then show ?case by (simp add: run_def)
next
  case (snoc ev evs)
  from snoc.prems have "map_of (step (run evs) ev) k = Some e" by (simp add: run_def)
  then consider "map_of (run evs) k = Some e"
    | clk d where "ev = Request k clk (Inr d)"
        "entry_data e = \<lparr>status = ''success'', timestamp = ISOString (at_envelope clk), data = d\<rparr>"
    using step_origin by blast
  then show ?case
  proof cases
    case 1
    from snoc.IH[OF 1] show ?thesis by auto
  next
    case 2
    then show ?thesis by auto
  qed
qed

subsection \<open>The sweep as a filter\<close>

lemma cleanup_loop_filter:
  "cleanup_loop now es cache n =
     (filter (\<lambda>kv. fst kv \<notin> fst ` set (filter (\<lambda>kv. now - entry_timestamp (snd kv) > CACHE_DURATION * 2) es)) cache,
      n + length (filter (\<lambda>kv. now - entry_timestamp (snd kv) > CACHE_DURATION * 2) es))"
proof (induction es arbitrary: cache n)
  case Nil
  then show ?case by simp
next
  case (Cons a es)
  obtain k v where a: "a = (k, v)" by (cases a)
  let ?old = "\<lambda>kv. now - entry_timestamp (snd kv) > CACHE_DURATION * 2"
  show ?case
  proof (cases "?old a")
    case True
    then have "cleanup_loop now (a # es) cache n = cleanup_loop now es (AList.delete k cache) (n + 1)"
      by (simp add: a)
    also have "\<dots> = (filter (\<lambda>kv. fst kv \<notin> fst ` set (filter ?old es)) (AList.delete k cache),
                     n + 1 + length (filter ?old es))"
      by (rule Cons.IH)
    also have "filter (\<lambda>kv. fst kv \<notin> fst ` set (filter ?old es)) (AList.delete k cache)
             = filter (\<lambda>kv. fst kv \<notin> fst ` set (filter ?old (a # es))) cache"
      using True by (auto simp: a AList.delete_eq intro!: filter_cong)
    finally show ?thesis using True by (simp add: a)
  next
    case False
    then show ?thesis by (simp add: a Cons.IH)
  qed
qed

lemma cleanupCache_filter:
  assumes "distinct (map fst cache)"
  shows "cleanupCache now cache =
     (filter (\<lambda>kv. \<not> now - entry_timestamp (snd kv) > CACHE_DURATION * 2) cache,
      length (filter (\<lambda>kv. now - entry_timestamp (snd kv) > CACHE_DURATION * 2) cache))"
proof -
  let ?old = "\<lambda>kv. now - entry_timestamp (snd kv) > CACHE_DURATION * 2"
  have "filter (\<lambda>kv. fst kv \<notin> fst ` set (filter ?old cache)) cache = filter (\<lambda>kv. \<not> ?old kv) cache"
  proof (rule filter_cong[OF refl])
    fix kv assume kv: "kv \<in> set cache"
    show "(fst kv \<notin> fst ` set (filter ?old cache)) = (\<not> ?old kv)"
    proof
      assume "fst kv \<notin> fst ` set (filter ?old cache)"
      with kv show "\<not> ?old kv" by force
    next
      assume n: "\<not> ?old kv"
      show "fst kv \<notin> fst ` set (filter ?old cache)"
      proof
        assume "fst kv \<in> fst ` set (filter ?old cache)"
        then obtain kv' where kv': "kv' \<in> set cache" "?old kv'" "fst kv' = fst kv"
          by auto
        from assms kv kv'(1,3) have "kv' = kv"
          by (metis eq_key_imp_eq_value prod.collapse)
        with n kv'(2) show False by simp
      qed
    qed
  qed
  then show ?thesis by (simp add: cleanupCache_def cleanup_loop_filter)
qed

lemma map_of_filter_values:
  "distinct (map fst xs) \<Longrightarrow>
   map_of (filter (\<lambda>kv. P (snd kv)) xs) k =
     (case map_of xs k of None \<Rightarrow> None | Some v \<Rightarrow> if P v then Some v else None)"
proof (induction xs)
  case Nil
  then show ?case by simp
next
  case (Cons a xs)
  obtain k' v' where a: "a = (k', v')" by (cases a)
  from Cons.prems have d: "distinct (map fst xs)" and nin: "k' \<notin> fst ` set xs" by (auto simp: a)
  have none: "map_of (filter (\<lambda>kv. P (snd kv)) xs) k' = None"
    using nin by (auto simp: map_of_eq_None_iff)
  show ?case
    using Cons.IH[OF d] none by (auto simp: a split: option.splits)
qed

lemma distinct_update: "distinct (map fst xs) \<Longrightarrow> distinct (map fst (AList.update k v xs))"
  by (simp add: AList.distinct_update)

lemma distinct_step: "distinct (map fst cache) \<Longrightarrow> distinct (map fst (step cache ev))"
proof (cases ev)
  case (Request key clk outcome)
  assume "distinct (map fst cache)"
  with Request show ?thesis
    by (auto simp: getCachedData_cases AList.distinct_update split: sum.splits)
next
  case (Sweep now)
  assume "distinct (map fst cache)"
  with Sweep show ?thesis by (simp add: cleanupCache_filter distinct_map_filter)
next
  case Clear
  then show ?thesis by (simp add: clear_cache_def)
qed

lemma distinct_run: "distinct (map fst (run evs))"
  by (induction evs rule: rev_induct) (simp_all add: run_def distinct_step)

subsection \<open>The laws of the cache\<close>

text \<open>
  C5 (cache hit law). If the map holds an entry for the key whose age, at the
  freshness test, is strictly below \<open>CACHE_DURATION\<close>, then \<^verbatim>\<open>getCachedData\<close> returns
  the stored envelope unchanged, leaves the map as it was and does not call the
  scraper: the outside state is untouched. Hence, when the map and the outside state
  are those an earlier call for the same key left, the two calls together have called
  the scraper at most once: the outside state is the one before the first call, or
  the one a single call of the first scraper leaves.
\<close>

theorem cache_hit_law:
  assumes "map_of cache cacheKey = Some cached"
      and "at_check clk - entry_timestamp cached < CACHE_DURATION"
  shows "getCachedData cacheKey scraperFunction clk cache w = (Inr (entry_data cached), cache, w)
       \<and> (\<forall>first clk0 cache0 w0 r0.
            getCachedData cacheKey first clk0 cache0 w0 = (r0, cache, w) \<longrightarrow>
              snd (snd (getCachedData cacheKey scraperFunction clk cache w)) \<in> {w0, snd (first w0)})"
proof -
  have hit: "getCachedData cacheKey scraperFunction clk cache w = (Inr (entry_data cached), cache, w)"
    using assms by (simp add: getCachedData_def)
  have "snd (snd (getCachedData cacheKey scraperFunction clk cache w)) \<in> {w0, snd (first w0)}"
    if "getCachedData cacheKey first clk0 cache0 w0 = (r0, cache, w)" for first clk0 cache0 w0 r0
  proof -
    have "snd (snd (getCachedData cacheKey first clk0 cache0 w0)) \<in> {w0, snd (first w0)}"
      by (rule getCachedData_world)
    with that hit show ?thesis by simp
  qed
  with hit show ?thesis by blast
qed

theorem cache_hit_law_witness:
  "getCachedData ''top-gainers'' (\<lambda>n::nat. (Inr (Array [8::nat]), Suc n))
      \<lparr>at_check = 1000, at_envelope = 1001, at_store = 1002, at_response = 1003\<rparr>
      [(''top-gainers'', \<lparr>entry_data = \<lparr>status = ''success'', timestamp = ISOString 3, data = Array [7]\<rparr>, entry_timestamp = 5\<rparr>)] 1
    = (Inr \<lparr>status = ''success'', timestamp = ISOString 3, data = (Array [7] :: (nat, unit) payload)\<rparr>,
        [(''top-gainers'', \<lparr>entry_data = \<lparr>status = ''success'', timestamp = ISOString 3, data = Array [7]\<rparr>, entry_timestamp = 5\<rparr>)], 1)
   \<and> getCachedData ''top-gainers'' (\<lambda>n::nat. (Inr (Array [7::nat]), Suc n))
      \<lparr>at_check = 0, at_envelope = 3, at_store = 5, at_response = 6\<rparr> [] 0 
      = (Inr \<lparr>status = ''success'', timestamp = ISOString 3, data = (Array [7] :: (nat, unit) payload)\<rparr>,
         [(''top-gainers'', \<lparr>entry_data = \<lparr>status = ''success'', timestamp = ISOString 3, data = Array [7]\<rparr>, entry_timestamp = 5\<rparr>)], 1)
   \<and> snd (snd (getCachedData ''top-gainers'' (\<lambda>n::nat. (Inr (Array [8::nat]), Suc n))
      \<lparr>at_check = 1000, at_envelope = 1001, at_store = 1002, at_response = 1003\<rparr>
      [(''top-gainers'', \<lparr>entry_data = \<lparr>status = ''success'', timestamp = ISOString 3, data = (Array [7] :: (nat, unit) payload)\<rparr>, entry_timestamp = 5\<rparr>)] 1)) \<in> {0, 1}"
proof -
  let ?e = "\<lparr>entry_data = \<lparr>status = ''success'', timestamp = ISOString 3, data = (Array [7::nat] :: (nat, unit) payload)\<rparr>, entry_timestamp = 5\<rparr>"
  let ?first = "\<lambda>n::nat. (Inr (Array [7::nat]) :: error + (nat, unit) payload, Suc n)"
  let ?c0 = "\<lparr>at_check = 0, at_envelope = 3, at_store = 5, at_response = 6\<rparr>"
  have h1: "map_of [(''top-gainers'', ?e)] ''top-gainers'' = Some ?e" by simp
  have h2: "at_check \<lparr>at_check = 1000, at_envelope = 1001, at_store = 1002, at_response = 1003\<rparr> - entry_timestamp ?e < CACHE_DURATION"
    by (simp add: CACHE_DURATION_def)
  have h3: "getCachedData ''top-gainers'' ?first ?c0 [] 0
      = (Inr \<lparr>status = ''success'', timestamp = ISOString 3, data = Array [7]\<rparr>, [(''top-gainers'', ?e)], 1)"
    by (simp add: getCachedData_def Let_def)
  note t = cache_hit_law[OF h1 h2, of "\<lambda>n::nat. (Inr (Array [8::nat]), Suc n)" 1]
  from t have a: "getCachedData ''top-gainers'' (\<lambda>n::nat. (Inr (Array [8::nat]), Suc n))
      \<lparr>at_check = 1000, at_envelope = 1001, at_store = 1002, at_response = 1003\<rparr> [(''top-gainers'', ?e)] 1 =
      (Inr (entry_data ?e), [(''top-gainers'', ?e)], 1)" by blast
  from t h3 have b: "snd (snd (getCachedData ''top-gainers'' (\<lambda>n::nat. (Inr (Array [8::nat]), Suc n))
      \<lparr>at_check = 1000, at_envelope = 1001, at_store = 1002, at_response = 1003\<rparr> [(''top-gainers'', ?e)] 1)) \<in> {0, snd (?first 0)}"
    by blast
  from a b h3 show ?thesis by simp
qed

text \<open>
  C4 (a failed fetch leaves the cache alone). For every scraper that throws, the map
  after the call of \<^verbatim>\<open>getCachedData\<close> is the map before it. And in every run of the
  process from the empty map, an entry stored under a key was built from the data
  that a successful scraper call for that key returned.
\<close>

theorem failed_fetch_keeps_cache:
  "(fst (scraperFunction w) = Inl err \<longrightarrow>
      fst (snd (getCachedData cacheKey scraperFunction clk cache w)) = cache)
   \<and> (map_of (run evs) k = Some e \<longrightarrow>
        (\<exists>c d. Request k c (Inr d) \<in> set evs \<and>
           entry_data e = \<lparr>status = ''success'', timestamp = ISOString (at_envelope c), data = d\<rparr>))"
proof
  show "fst (scraperFunction w) = Inl err \<longrightarrow>
      fst (snd (getCachedData cacheKey scraperFunction clk cache w)) = cache"
    by (auto simp: getCachedData_cases split: prod.splits sum.splits)
  show "map_of (run evs) k = Some e \<longrightarrow>
        (\<exists>c d. Request k c (Inr d) \<in> set evs \<and>
           entry_data e = \<lparr>status = ''success'', timestamp = ISOString (at_envelope c), data = d\<rparr>)"
    using run_origin by blast
qed

theorem failed_fetch_keeps_cache_witness:
  "fst (snd (getCachedData ''top-losers'' (\<lambda>w::unit. (Inl ''ECONNRESET'', w))
        \<lparr>at_check = 700000, at_envelope = 700001, at_store = 700002, at_response = 700003\<rparr>
        [(''top-losers'', \<lparr>entry_data = \<lparr>status = ''success'', timestamp = ISOString 10,
            data = (Array [''DOGE''] :: (string, unit) payload)\<rparr>, entry_timestamp = 12\<rparr>)] ()))
     = [(''top-losers'', \<lparr>entry_data = \<lparr>status = ''success'', timestamp = ISOString 10,
            data = Array [''DOGE'']\<rparr>, entry_timestamp = 12\<rparr>)]
   \<and> (\<exists>c d. Request ''top-losers'' c (Inr d) \<in>
          set [Request ''top-losers'' \<lparr>at_check = 0, at_envelope = 10, at_store = 12, at_response = 13\<rparr>
                 (Inr (Array [''DOGE''])), Sweep 100, Request ''top-losers''
                   \<lparr>at_check = 700000, at_envelope = 700001, at_store = 700002, at_response = 700003\<rparr>
                 (Inl ''ECONNRESET'')]
        \<and> entry_data \<lparr>entry_data = \<lparr>status = ''success'', timestamp = ISOString 10,
            data = (Array [''DOGE''] :: (string, unit) payload)\<rparr>, entry_timestamp = 12\<rparr>
          = \<lparr>status = ''success'', timestamp = ISOString (at_envelope c), data = d\<rparr>)"
proof -
  let ?e = "\<lparr>entry_data = \<lparr>status = ''success'', timestamp = ISOString 10,
            data = (Array [''DOGE''] :: (string, unit) payload)\<rparr>, entry_timestamp = 12\<rparr>"
  let ?evs = "[Request ''top-losers'' \<lparr>at_check = 0, at_envelope = 10, at_store = 12, at_response = 13\<rparr>
                 (Inr (Array [''DOGE''])), Sweep 100, Request ''top-losers''
                   \<lparr>at_check = 700000, at_envelope = 700001, at_store = 700002, at_response = 700003\<rparr>
                 (Inl ''ECONNRESET'')]"
  have h1: "fst ((\<lambda>w::unit. (Inl ''ECONNRESET'' :: error + (string, unit) payload, w)) ()) = Inl ''ECONNRESET''"
    by simp
  have h2: "map_of (run ?evs) ''top-losers'' = Some ?e"
    by (simp add: run_def getCachedData_def cleanupCache_def CACHE_DURATION_def Let_def)
  from failed_fetch_keeps_cache[of "\<lambda>w::unit. (Inl ''ECONNRESET'', w)" "()" "''ECONNRESET''"
      "''top-losers''" "\<lparr>at_check = 700000, at_envelope = 700001, at_store = 700002, at_response = 700003\<rparr>"
      "[(''top-losers'', ?e)]" ?evs "''top-losers''" ?e] h1 h2
  show ?thesis by blast
qed

text \<open>
  C1 (stale-fallback law). If an entry is stored under the key, of whatever age past
  the freshness window, and the scraper of this request throws, the route answers
  200 with the stored envelope and the message
  \<^verbatim>\<open>Serving cached data due to fetch error\<close>; the map is unchanged. When the map is
  the one a successful earlier call for the key left, the envelope served is the one
  that call returned.
\<close>

theorem stale_fallback_law:
  assumes "map_of cache cacheKey = Some cached"
      and "\<not> at_check clk - entry_timestamp cached < CACHE_DURATION"
      and "scraperFunction w = (Inl err, w')"
  shows "list_route cacheKey scraperFunction notFound errorMessage clk cache w =
          ((200, \<lparr>body_status = status (entry_data cached),
                  body_message = Some ''Serving cached data due to fetch error'',
                  body_timestamp = Some (timestamp (entry_data cached)),
                  body_data = Some (data (entry_data cached)),
                  body_count = None, body_error = None\<rparr>), cache, w')
       \<and> (\<forall>first clk0 cache0 w0 env.
            getCachedData cacheKey first clk0 cache0 w0 = (Inr env, cache, w) \<longrightarrow>
              entry_data cached = env)"
proof -
  have "getCachedData cacheKey scraperFunction clk cache w = (Inl err, cache, w')"
    using assms by (simp add: getCachedData_def)
  then have "list_route cacheKey scraperFunction notFound errorMessage clk cache w =
          ((200, \<lparr>body_status = status (entry_data cached),
                  body_message = Some ''Serving cached data due to fetch error'',
                  body_timestamp = Some (timestamp (entry_data cached)),
                  body_data = Some (data (entry_data cached)),
                  body_count = None, body_error = None\<rparr>), cache, w')"
    using assms(1) by (simp add: list_route_def handleErrorWithCacheFallback_def spread_def)
  moreover have "entry_data cached = env"
    if "getCachedData cacheKey first clk0 cache0 w0 = (Inr env, cache, w)" for first clk0 cache0 w0 env
    using getCachedData_stored[OF that] assms(1) by auto
  ultimately show ?thesis by blast
qed

theorem stale_fallback_law_witness:
  "list_route ''top-gainers'' (\<lambda>n::nat. (Inl ''timeout of 5000ms exceeded'', Suc n))
      ''No top gainers found'' ''Error fetching top gainers data''
      \<lparr>at_check = 900000, at_envelope = 900001, at_store = 900002, at_response = 900003\<rparr>
      [(''top-gainers'', \<lparr>entry_data = \<lparr>status = ''success'', timestamp = ISOString 40,
          data = (Array [''PEPE''] :: (string, unit) payload)\<rparr>, entry_timestamp = 41\<rparr>)] 1
   = ((200, \<lparr>body_status = ''success'',
             body_message = Some ''Serving cached data due to fetch error'',
             body_timestamp = Some (ISOString 40), body_data = Some (Array [''PEPE'']),
             body_count = None, body_error = None\<rparr>),
      [(''top-gainers'', \<lparr>entry_data = \<lparr>status = ''success'', timestamp = ISOString 40,
          data = Array [''PEPE'']\<rparr>, entry_timestamp = 41\<rparr>)], 2)"
proof -
  let ?e = "\<lparr>entry_data = \<lparr>status = ''success'', timestamp = ISOString 40,
          data = (Array [''PEPE''] :: (string, unit) payload)\<rparr>, entry_timestamp = 41\<rparr>"
  let ?clk = "\<lparr>at_check = 900000, at_envelope = 900001, at_store = 900002, at_response = 900003\<rparr>"
  have h1: "map_of [(''top-gainers'', ?e)] ''top-gainers'' = Some ?e" by simp
  have h2: "\<not> at_check ?clk - entry_timestamp ?e < CACHE_DURATION"
    by (simp add: CACHE_DURATION_def)
  have h3: "(\<lambda>n::nat. (Inl ''timeout of 5000ms exceeded'' :: error + (string, unit) payload, Suc n)) 1
      = (Inl ''timeout of 5000ms exceeded'', 2)" by simp
  from stale_fallback_law[where scraperFunction =
        "\<lambda>n::nat. (Inl ''timeout of 5000ms exceeded'', Suc n)" and w = 1 and w' = 2
        and err = "''timeout of 5000ms exceeded''" and notFound = "''No top gainers found''"
        and errorMessage = "''Error fetching top gainers data''", OF h1 h2 h3]
  show ?thesis by simp
qed

text \<open>The same on \<^verbatim>\<open>/btc-dominance\<close>, the one route that serves an object.\<close>

lemma stale_fallback_btc:
  assumes "map_of cache ''btc-dominance'' = Some cached"
      and "\<not> at_check clk - entry_timestamp cached < CACHE_DURATION"
      and "scraperFunction w = (Inl err, w')"
  shows "btc_route scraperFunction clk cache w =
          ((200, \<lparr>body_status = status (entry_data cached),
                  body_message = Some ''Serving cached data due to fetch error'',
                  body_timestamp = Some (timestamp (entry_data cached)),
                  body_data = Some (data (entry_data cached)),
                  body_count = None, body_error = None\<rparr>), cache, w')"
proof -
  have "getCachedData ''btc-dominance'' scraperFunction clk cache w = (Inl err, cache, w')"
    using assms by (simp add: getCachedData_def)
  then show ?thesis
    using assms(1) by (simp add: btc_route_def handleErrorWithCacheFallback_def spread_def)
qed

text \<open>
  C3 (cold-failure law). If no entry is stored under the key and the scraper throws,
  the route answers 500 with status \<^verbatim>\<open>error\<close>, the route's own message, the
  timestamp of the response and the text of the error; the body carries no data.
\<close>

theorem cold_failure_law:
  assumes "map_of cache cacheKey = None"
      and "scraperFunction w = (Inl err, w')"
  shows "list_route cacheKey scraperFunction notFound errorMessage clk cache w =
          ((500, \<lparr>body_status = ''error'', body_message = Some errorMessage,
                  body_timestamp = Some (ISOString (at_response clk)),
                  body_data = None, body_count = None, body_error = Some err\<rparr>), cache, w')"
proof -
  have "getCachedData cacheKey scraperFunction clk cache w = (Inl err, cache, w')"
    using assms by (simp add: getCachedData_def)
  then show ?thesis
    using assms(1) by (simp add: list_route_def handleErrorWithCacheFallback_def)
qed

theorem cold_failure_law_witness:
  "list_route ''all-time-highs'' (\<lambda>n::nat. (Inl ''Request failed with status code 403'', Suc n))
      ''No all-time highs data found'' ''Error fetching all-time highs data''
      \<lparr>at_check = 7, at_envelope = 8, at_store = 9, at_response = 10\<rparr>
      ([] :: (string, unit) cache) 0
   = ((500, \<lparr>body_status = ''error'',
             body_message = Some ''Error fetching all-time highs data'',
             body_timestamp = Some (ISOString 10), body_data = None,
             body_count = None, body_error = Some ''Request failed with status code 403''\<rparr>),
      [], 1)"
proof -
  have h1: "map_of ([] :: (string, unit) cache) ''all-time-highs'' = None" by simp
  have h2: "(\<lambda>n::nat. (Inl ''Request failed with status code 403'' :: error + (string, unit) payload, Suc n)) 0
      = (Inl ''Request failed with status code 403'', 1)" by simp
  from cold_failure_law[where scraperFunction =
        "\<lambda>n::nat. (Inl ''Request failed with status code 403'', Suc n)" and w = 0 and w' = 1
        and err = "''Request failed with status code 403''"
        and notFound = "''No all-time highs data found''"
        and errorMessage = "''Error fetching all-time highs data''"
        and clk = "\<lparr>at_check = 7, at_envelope = 8, at_store = 9, at_response = 10\<rparr>", OF h1 h2]
  show ?thesis by simp
qed

text \<open>
  C8 (count field). On a list route the fresh and the cache-hit answers carry
  \<^verbatim>\<open>count\<close>, added by the route; the stale-fallback answer is built by
  \<^verbatim>\<open>handleErrorWithCacheFallback\<close> from the stored envelope alone and carries the
  list without \<^verbatim>\<open>count\<close>. Here \<^verbatim>\<open>/trending-coins\<close> holds a stored list of two
  records, six minutes old, and its scraper throws.
\<close>

theorem stale_fallback_drops_count:
  "fst (list_route ''trending-coins'' (\<lambda>w::unit. (Inl ''socket hang up'', w))
         ''No trending coins found'' ''Error fetching trending cryptocurrency data''
         \<lparr>at_check = 400000, at_envelope = 400001, at_store = 400002, at_response = 400003\<rparr>
         [(''trending-coins'',
           \<lparr>entry_data = \<lparr>status = ''success'', timestamp = ISOString 0,
                          data = (Array [''Bitcoin'', ''Ethereum''] :: (string, unit) payload)\<rparr>,
            entry_timestamp = 1\<rparr>)] ())
   = (200, \<lparr>body_status = ''success'',
            body_message = Some ''Serving cached data due to fetch error'',
            body_timestamp = Some (ISOString 0),
            body_data = Some (Array [''Bitcoin'', ''Ethereum'']),
            body_count = None, body_error = None\<rparr>)"
  by (simp add: list_route_def getCachedData_def handleErrorWithCacheFallback_def spread_def
      CACHE_DURATION_def)

text \<open>
  C9 (sweep law). On a map that holds each key once, one pass of \<^verbatim>\<open>cleanupCache\<close>
  removes exactly the entries older than twice \<open>CACHE_DURATION\<close> and counts them.
  A removed key is absent from the map and from the listing of \<^verbatim>\<open>/cache-status\<close>,
  and the next \<^verbatim>\<open>getCachedData\<close> for it calls the scraper and returns what a call on
  the empty map returns. Every younger entry is kept as it is. A pass over a map with
  no such entry returns the map and the count zero, and so does a second pass.
\<close>

theorem sweep_law:
  assumes "distinct (map fst cache)"
  shows "cleanupCache now cache =
          (filter (\<lambda>(key, v). \<not> now - entry_timestamp v > CACHE_DURATION * 2) cache,
           length (filter (\<lambda>(key, v). now - entry_timestamp v > CACHE_DURATION * 2) cache))
       \<and> (\<forall>key v. map_of cache key = Some v \<and> now - entry_timestamp v > CACHE_DURATION * 2 \<longrightarrow>
            map_of (fst (cleanupCache now cache)) key = None
          \<and> key \<notin> info_key ` set (cache_status t (fst (cleanupCache now cache)))
          \<and> fst (getCachedData key scraperFunction clk (fst (cleanupCache now cache)) w)
              = fst (getCachedData key scraperFunction clk [] w)
          \<and> snd (snd (getCachedData key scraperFunction clk (fst (cleanupCache now cache)) w))
              = snd (scraperFunction w))
       \<and> (\<forall>key v. map_of cache key = Some v \<and> \<not> now - entry_timestamp v > CACHE_DURATION * 2 \<longrightarrow>
            map_of (fst (cleanupCache now cache)) key = Some v)
       \<and> ((\<forall>(key, v) \<in> set cache. \<not> now - entry_timestamp v > CACHE_DURATION * 2) \<longrightarrow>
            cleanupCache now cache = (cache, 0))
       \<and> cleanupCache now (fst (cleanupCache now cache)) = (fst (cleanupCache now cache), 0)"
proof -
  let ?old = "\<lambda>kv. now - entry_timestamp (snd kv) > CACHE_DURATION * 2"
  let ?swept = "fst (cleanupCache now cache)"
  have eq: "cleanupCache now cache = (filter (\<lambda>kv. \<not> ?old kv) cache, length (filter ?old cache))"
    by (rule cleanupCache_filter[OF assms])
  have sw: "?swept = filter (\<lambda>kv. \<not> ?old kv) cache" by (simp add: eq)
  have look: "map_of ?swept key =
      (case map_of cache key of None \<Rightarrow> None
       | Some v \<Rightarrow> if \<not> now - entry_timestamp v > CACHE_DURATION * 2 then Some v else None)" for key
    unfolding sw using map_of_filter_values[OF assms, of "\<lambda>v. \<not> now - entry_timestamp v > CACHE_DURATION * 2" key]
    by simp
  have p1: "cleanupCache now cache =
          (filter (\<lambda>(key, v). \<not> now - entry_timestamp v > CACHE_DURATION * 2) cache,
           length (filter (\<lambda>(key, v). now - entry_timestamp v > CACHE_DURATION * 2) cache))"
    by (simp add: eq case_prod_unfold)
  have keys: "info_key ` set (cache_status t c) = fst ` set c" for c :: "('a, 'b) cache"
    by (force simp: cache_status_def Let_def case_prod_unfold image_iff)
  have p2: "map_of ?swept key = None
          \<and> key \<notin> info_key ` set (cache_status t ?swept)
          \<and> fst (getCachedData key scraperFunction clk ?swept w)
              = fst (getCachedData key scraperFunction clk [] w)
          \<and> snd (snd (getCachedData key scraperFunction clk ?swept w)) = snd (scraperFunction w)"
    if "map_of cache key = Some v \<and> now - entry_timestamp v > CACHE_DURATION * 2" for key v
  proof -
    from that have n: "map_of ?swept key = None" by (simp add: look)
    then have "key \<notin> fst ` set ?swept" by (simp add: map_of_eq_None_iff)
    with n show ?thesis
      by (auto simp: keys getCachedData_def Let_def split: prod.splits sum.splits)
  qed
  have p3: "map_of ?swept key = Some v"
    if "map_of cache key = Some v \<and> \<not> now - entry_timestamp v > CACHE_DURATION * 2" for key v
    using that by (simp add: look)
  have p4: "cleanupCache now cache = (cache, 0)"
    if "\<forall>(key, v) \<in> set cache. \<not> now - entry_timestamp v > CACHE_DURATION * 2"
  proof -
    from that have "filter (\<lambda>kv. \<not> ?old kv) cache = cache" "filter ?old cache = []"
      by (auto simp: filter_id_conv filter_empty_conv)
    then show ?thesis by (simp add: eq)
  qed
  have d': "distinct (map fst ?swept)" by (simp add: sw distinct_map_filter assms)
  have p5: "cleanupCache now ?swept = (?swept, 0)"
    unfolding cleanupCache_filter[OF d', of now] by (simp add: sw)
  from p1 p2 p3 p4 p5 show ?thesis by blast
qed

theorem sweep_law_witness:
  "cleanupCache 1000000
     [(''top-gainers'', \<lparr>entry_data = \<lparr>status = ''success'', timestamp = ISOString 40,
          data = (Array [''PEPE''] :: (string, unit) payload)\<rparr>, entry_timestamp = 41\<rparr>),
      (''top-losers'', \<lparr>entry_data = \<lparr>status = ''success'', timestamp = ISOString 600000,
          data = Array [''LUNA'']\<rparr>, entry_timestamp = 600002\<rparr>)]
   = ([(''top-losers'', \<lparr>entry_data = \<lparr>status = ''success'', timestamp = ISOString 600000,
          data = Array [''LUNA'']\<rparr>, entry_timestamp = 600002\<rparr>)], 1)"
proof -
  let ?c = "[(''top-gainers'', \<lparr>entry_data = \<lparr>status = ''success'', timestamp = ISOString 40,
          data = (Array [''PEPE''] :: (string, unit) payload)\<rparr>, entry_timestamp = 41\<rparr>),
      (''top-losers'', \<lparr>entry_data = \<lparr>status = ''success'', timestamp = ISOString 600000,
          data = Array [''LUNA'']\<rparr>, entry_timestamp = 600002\<rparr>)]"
  have h: "distinct (map fst ?c)" by simp
  have "cleanupCache 1000000 ?c =
          (filter (\<lambda>(key, v). \<not> 1000000 - entry_timestamp v > CACHE_DURATION * 2) ?c,
           length (filter (\<lambda>(key, v). 1000000 - entry_timestamp v > CACHE_DURATION * 2) ?c))"
    using sweep_law[OF h, of 1000000 0 "\<lambda>w::unit. (Inl [], w)" undefined "()"] by (rule conjunct1)
  then show ?thesis
    apply (simp only: )
    apply (simp add: CACHE_DURATION_def)
    done
qed

section \<open>Properties of the number model\<close>

subsection \<open>Binary exponents\<close>

lemma bits_bounds: "0 < n \<Longrightarrow> 2 ^ (bits n - 1) \<le> n \<and> n < 2 ^ bits n"
proof (induction n rule: bits.induct)
  case (1 n)
  show ?case
  proof (cases "n div 2 = 0")
    case True
    with 1(2) have n: "n = 1" by presburger
    have "bits 1 = 1" by (simp add: bits.simps)
    with n show ?thesis by simp
  next
    case False
    with 1(2) have pos: "0 < n div 2" by presburger
    from 1(1)[OF _ pos] 1(2) have ih: "2 ^ (bits (n div 2) - 1) \<le> n div 2" "n div 2 < 2 ^ bits (n div 2)"
      by auto
    have b: "bits n = Suc (bits (n div 2))" using 1(2) by (subst bits.simps) simp
    have bp: "0 < bits (n div 2)" using pos by (subst bits.simps) simp
    then have e: "bits (n div 2) = Suc (bits (n div 2) - 1)" by simp
    have "(2::int) ^ (bits n - 1) = 2 ^ bits (n div 2)" by (simp add: b)
    also have "\<dots> = 2 * 2 ^ (bits (n div 2) - 1)" by (subst e) simp
    also have "\<dots> \<le> 2 * (n div 2)" using ih(1) by simp
    also have "\<dots> \<le> n" by presburger
    finally have lo: "2 ^ (bits n - 1) \<le> n" .
    have "n < 2 * (n div 2) + 2" by presburger
    also have "\<dots> \<le> 2 * 2 ^ bits (n div 2)" using ih(2) by simp
    also have "\<dots> = 2 ^ bits n" by (simp add: b)
    finally show ?thesis using lo by simp
  qed
qed

lemma pow2_pos: "0 < pow2 e"
  by (simp add: pow2_def zero_less_power_int)

lemma pow2_nat: "pow2 (int n) = 2 ^ n"
  by (simp add: pow2_def)

lemma pow2_add: "pow2 (a + b) = pow2 a * pow2 b"
  by (simp add: pow2_def power_int_add)

lemma pow2_diff: "pow2 (a - b) = pow2 a / pow2 b"
  by (simp add: pow2_def power_int_diff)

lemma pow2_mono: "a \<le> b \<Longrightarrow> pow2 a \<le> pow2 b"
  by (simp add: pow2_def power_int_increasing)

lemma pow2_strict_mono: "a < b \<Longrightarrow> pow2 a < pow2 b"
  by (simp add: pow2_def power_int_strict_increasing)

lemma pow2_less_iff: "pow2 a < pow2 b \<longleftrightarrow> a < b"
  by (meson pow2_strict_mono pow2_mono not_less)

lemma ilog2_bounds:
  assumes "x \<noteq> 0"
  shows "pow2 (ilog2 x) \<le> \<bar>x\<bar> \<and> \<bar>x\<bar> < pow2 (ilog2 x + 1)"
proof -
  obtain p q where pq: "quotient_of \<bar>x\<bar> = (p, q)" by (cases "quotient_of \<bar>x\<bar>")
  then have q: "0 < q" by (rule quotient_of_denom_pos)
  have x: "\<bar>x\<bar> = of_int p / of_int q" using pq by (rule quotient_of_div)
  have p: "0 < p"
  proof -
    from assms have "0 < \<bar>x\<bar>" by simp
    then have "(0::rat) < of_int p / of_int q" by (simp only: x)
    with q show ?thesis by (simp add: zero_less_divide_iff)
  qed
  define e0 where "e0 = int (bits p) - int (bits q)"
  from bits_bounds[OF p] have bp: "2 ^ (bits p - 1) \<le> p" "p < 2 ^ bits p" by auto
  from bits_bounds[OF q] have bq: "2 ^ (bits q - 1) \<le> q" "q < 2 ^ bits q" by auto
  have bp0: "0 < bits p" using p by (subst bits.simps) simp
  have bq0: "0 < bits q" using q by (subst bits.simps) simp
  have P1: "pow2 (int (bits p) - 1) \<le> of_int p"
  proof -
    have "pow2 (int (bits p) - 1) = pow2 (int (bits p - 1))" using bp0 by (simp add: of_nat_diff)
    also have "\<dots> = of_int (2 ^ (bits p - 1))" by (simp add: pow2_nat)
    also have "\<dots> \<le> of_int p" using bp(1) by (simp only: of_int_le_iff)
    finally show ?thesis .
  qed
  have P2: "of_int p < pow2 (int (bits p))"
  proof -
    have "(of_int p :: rat) < of_int (2 ^ bits p)" using bp(2) by (simp only: of_int_less_iff)
    then show ?thesis by (simp add: pow2_nat)
  qed
  have Q1: "pow2 (int (bits q) - 1) \<le> of_int q"
  proof -
    have "pow2 (int (bits q) - 1) = pow2 (int (bits q - 1))" using bq0 by (simp add: of_nat_diff)
    also have "\<dots> = of_int (2 ^ (bits q - 1))" by (simp add: pow2_nat)
    also have "\<dots> \<le> of_int q" using bq(1) by (simp only: of_int_le_iff)
    finally show ?thesis .
  qed
  have Q2: "of_int q < pow2 (int (bits q))"
  proof -
    have "(of_int q :: rat) < of_int (2 ^ bits q)" using bq(2) by (simp only: of_int_less_iff)
    then show ?thesis by (simp add: pow2_nat)
  qed
  have qr: "(0::rat) < of_int q" using q by simp
  have up: "\<bar>x\<bar> < pow2 (e0 + 1)"
  proof -
    have "of_int p * pow2 (int (bits q) - 1) < pow2 (int (bits p)) * of_int q"
      using P2 Q1 qr p pow2_pos[of "int (bits q) - 1"]
      by (intro mult_less_le_imp_less) (auto simp: less_imp_le)
    then have "of_int p / of_int q < pow2 (int (bits p)) / pow2 (int (bits q) - 1)"
      using qr pow2_pos[of "int (bits q) - 1"] by (simp add: field_simps)
    also have "\<dots> = pow2 (e0 + 1)" by (simp add: e0_def pow2_diff[symmetric] algebra_simps)
    finally show ?thesis by (simp add: x)
  qed
  have lo: "pow2 (e0 - 1) < \<bar>x\<bar>"
  proof -
    have "pow2 (int (bits p) - 1) * of_int q < of_int p * pow2 (int (bits q))"
      using P1 Q2 qr p pow2_pos[of "int (bits p) - 1"]
      by (intro mult_le_less_imp_less) (auto simp: less_imp_le)
    then have "pow2 (int (bits p) - 1) / pow2 (int (bits q)) < of_int p / of_int q"
      using qr pow2_pos[of "int (bits q)"] by (simp add: field_simps)
    moreover have "pow2 (int (bits p) - 1) / pow2 (int (bits q)) = pow2 (e0 - 1)"
      by (simp add: e0_def pow2_diff[symmetric] algebra_simps)
    ultimately show ?thesis by (simp add: x)
  qed
  have il: "ilog2 x = (if pow2 e0 \<le> \<bar>x\<bar> then e0 else e0 - 1)"
    by (simp add: ilog2_def pq e0_def Let_def)
  show ?thesis
  proof (cases "pow2 e0 \<le> \<bar>x\<bar>")
    case True
    with il up show ?thesis by simp
  next
    case False
    with il lo show ?thesis by (simp add: less_imp_le)
  qed
qed

lemma ilog2_unique:
  assumes "pow2 e \<le> \<bar>x\<bar>" "\<bar>x\<bar> < pow2 (e + 1)"
  shows "ilog2 x = e"
proof -
  have nz: "x \<noteq> 0"
  proof
    assume "x = 0"
    with assms(1) have "pow2 e \<le> 0" by simp
    with pow2_pos[of e] show False by linarith
  qed
  from ilog2_bounds[OF nz] have b: "pow2 (ilog2 x) \<le> \<bar>x\<bar>" "\<bar>x\<bar> < pow2 (ilog2 x + 1)" by auto
  from b(1) assms(2) have "pow2 (ilog2 x) < pow2 (e + 1)" by simp
  then have 1: "ilog2 x < e + 1" by (simp add: pow2_less_iff)
  from assms(1) b(2) have "pow2 e < pow2 (ilog2 x + 1)" by simp
  then have 2: "e < ilog2 x + 1" by (simp add: pow2_less_iff)
  from 1 2 show ?thesis by simp
qed

subsection \<open>Rounding\<close>

lemma roundTiesToEven_error: "\<bar>of_int (roundTiesToEven x) - x\<bar> \<le> 1 / 2"
proof -
  define d where "d = x - of_int \<lfloor>x\<rfloor>"
  have d: "0 \<le> d" "d < 1" unfolding d_def by linarith+
  have x: "x = of_int \<lfloor>x\<rfloor> + d" by (simp add: d_def)
  consider "d < 1 / 2" | "1 / 2 < d" | "d = 1 / 2" by linarith
  then show ?thesis
  proof cases
    case 1
    then have "roundTiesToEven x = \<lfloor>x\<rfloor>" by (simp add: roundTiesToEven_def Let_def d_def)
    with 1 d show ?thesis by (subst (2) x) simp
  next
    case 2
    then have "roundTiesToEven x = \<lfloor>x\<rfloor> + 1" by (simp add: roundTiesToEven_def Let_def d_def)
    with 2 d show ?thesis by (subst (2) x) simp
  next
    case 3
    then have "roundTiesToEven x = \<lfloor>x\<rfloor> \<or> roundTiesToEven x = \<lfloor>x\<rfloor> + 1"
      by (simp add: roundTiesToEven_def Let_def d_def)
    moreover from 3 have "x = of_int \<lfloor>x\<rfloor> + 1 / 2" by (simp add: d_def)
    ultimately show ?thesis by (elim disjE) (simp_all add: abs_if)
  qed
qed

lemma roundTiesToEven_eval:
  assumes "\<bar>x - of_int m\<bar> < 1 / 2"
  shows "roundTiesToEven x = m"
proof -
  from roundTiesToEven_error[of x] assms
  have "\<bar>(of_int (roundTiesToEven x) :: rat) - of_int m\<bar> < 1" by linarith
  then have "\<bar>(of_int (roundTiesToEven x - m) :: rat)\<bar> < 1" by simp
  then have "\<bar>roundTiesToEven x - m\<bar> < 1"
    by (metis of_int_abs of_int_less_1_iff)
  then show ?thesis by simp
qed

lemma roundTiesToEven_of_int [simp]: "roundTiesToEven (of_int m) = m"
  by (simp add: roundTiesToEven_def)

lemma roundTiesToEven_nonneg: "0 \<le> x \<Longrightarrow> 0 \<le> roundTiesToEven x"
proof -
  assume "0 \<le> x"
  then have "0 \<le> \<lfloor>x\<rfloor>" by simp
  then show ?thesis by (auto simp: roundTiesToEven_def Let_def)
qed

lemma number_value_eval:
  assumes "pow2 e \<le> \<bar>x\<bar>" and "\<bar>x\<bar> < pow2 (e + 1)" and "- 1022 \<le> e"
      and "y = of_int (roundTiesToEven (x / pow2 (e - 52))) * pow2 (e - 52)"
      and "\<bar>y\<bar> < 2 ^ 1024"
  shows "number_value x = Num y"
proof -
  have nz: "x \<noteq> 0"
  proof
    assume "x = 0"
    with assms(1) pow2_pos[of e] show False by simp
  qed
  have "ilog2 x = e" using assms(1,2) by (rule ilog2_unique)
  with assms(3) have "max (ilog2 x) (- 1022) = e" by simp
  with nz assms(4,5) show ?thesis
    by (simp add: number_value_def Let_def)
qed

lemma number_value_subnormal:
  assumes "x \<noteq> 0" and "\<bar>x\<bar> < pow2 (- 1022)"
      and "y = of_int (roundTiesToEven (x / pow2 (- 1074))) * pow2 (- 1074)"
      and "\<bar>y\<bar> < 2 ^ 1024"
  shows "number_value x = Num y"
proof -
  from ilog2_bounds[OF assms(1)] assms(2) have "pow2 (ilog2 x) < pow2 (- 1022)" by simp
  then have "ilog2 x < - 1022" by (simp add: pow2_less_iff)
  then have "max (ilog2 x) (- 1022) = - 1022" by simp
  with assms show ?thesis
    by (simp add: number_value_def Let_def)
qed

lemma number_value_normal:
  assumes lo: "pow2 (- 1022) \<le> \<bar>x\<bar>" and hi: "\<bar>x\<bar> \<le> 2 ^ 1023"
  shows "\<exists>y. number_value x = Num y \<and> \<bar>y - x\<bar> \<le> \<bar>x\<bar> / 2 ^ 53 \<and> (0 \<le> x \<longrightarrow> 0 \<le> y)"
proof -
  have nz: "x \<noteq> 0"
  proof
    assume "x = 0"
    with lo pow2_pos[of "- 1022"] show False by simp
  qed
  define e where "e = ilog2 x"
  from ilog2_bounds[OF nz] have b: "pow2 e \<le> \<bar>x\<bar>" "\<bar>x\<bar> < pow2 (e + 1)" by (auto simp: e_def)
  from lo b(2) have "pow2 (- 1022) < pow2 (e + 1)" by simp
  then have e: "- 1022 \<le> e" by (simp add: pow2_less_iff)
  define ulp where "ulp = pow2 (e - 52)"
  have ulp: "0 < ulp" by (simp add: ulp_def pow2_pos)
  define m where "m = roundTiesToEven (x / ulp)"
  define y where "y = of_int m * ulp"
  have "\<bar>y - x\<bar> = \<bar>of_int m - x / ulp\<bar> * ulp"
  proof -
    have "y - x = (of_int m - x / ulp) * ulp" using ulp by (simp add: y_def field_simps)
    then show ?thesis using ulp by (simp add: abs_mult)
  qed
  also have "\<dots> \<le> 1 / 2 * ulp"
    using roundTiesToEven_error[of "x / ulp"] ulp unfolding m_def
    by (intro mult_right_mono) auto
  also have "\<dots> = pow2 e / 2 ^ 53"
  proof -
    have "pow2 e = pow2 (e - 52) * pow2 52" using pow2_add[of "e - 52" 52] by simp
    then show ?thesis by (simp add: ulp_def pow2_def)
  qed
  also have "\<dots> \<le> \<bar>x\<bar> / 2 ^ 53" using b(1) by (simp add: divide_right_mono)
  finally have err: "\<bar>y - x\<bar> \<le> \<bar>x\<bar> / 2 ^ 53" .
  have "\<bar>y\<bar> \<le> \<bar>x\<bar> + \<bar>y - x\<bar>" by simp
  also have "\<dots> \<le> \<bar>x\<bar> + \<bar>x\<bar> / 2 ^ 53" using err by simp
  also have "\<dots> \<le> 2 ^ 1023 + 2 ^ 1023 / 2 ^ 53"
    using hi by (intro add_mono divide_right_mono) auto
  also have "\<dots> < 2 ^ 1024" by simp
  finally have fin: "\<bar>y\<bar> < 2 ^ 1024" .
  have nv: "number_value x = Num y"
    using b e fin by (intro number_value_eval[where e = e]) (auto simp: y_def m_def ulp_def)
  have "0 \<le> y" if "0 \<le> x"
  proof -
    from that ulp have "0 \<le> x / ulp" by simp
    then have "0 \<le> m" unfolding m_def by (rule roundTiesToEven_nonneg)
    with ulp show ?thesis by (simp add: y_def)
  qed
  with nv err show ?thesis by blast
qed

lemma number_value_at:
  assumes "pow2 e \<le> \<bar>x\<bar>" and "\<bar>x\<bar> < pow2 (e + 1)" and "- 1022 \<le> e"
      and "\<bar>x / pow2 (e - 52) - of_int m\<bar> < 1 / 2"
      and "y = of_int m * pow2 (e - 52)"
      and "\<bar>y\<bar> < 2 ^ 1024"
  shows "number_value x = Num y"
  using assms(1,2,3) _ assms(6)
  by (rule number_value_eval) (simp add: assms(5) roundTiesToEven_eval[OF assms(4)])

lemma floor_rat_numeral [simp]: "\<lfloor>(numeral a :: rat) / numeral b\<rfloor> = numeral a div numeral b"
  using floor_divide_of_int_eq[of "numeral a" "numeral b", where ?'a = rat] by simp

lemma roundTiesToEven_bound:
  assumes "\<bar>x\<bar> \<le> of_int n"
  shows "\<bar>roundTiesToEven x\<bar> \<le> n"
proof -
  have up: "roundTiesToEven x \<le> n"
  proof (rule ccontr)
    assume "\<not> roundTiesToEven x \<le> n"
    then have "n + 1 \<le> roundTiesToEven x" by simp
    then have "(of_int (n + 1) :: rat) \<le> of_int (roundTiesToEven x)" by (simp only: of_int_le_iff)
    with roundTiesToEven_error[of x] assms have "x = of_int n \<or> x < of_int n \<and> of_int n + 1 / 2 \<le> x"
      by (auto simp: abs_if split: if_splits)
    then have "x = of_int n" by auto
    then have "roundTiesToEven x = n" by simp
    with \<open>\<not> roundTiesToEven x \<le> n\<close> show False by simp
  qed
  have lo: "- n \<le> roundTiesToEven x"
  proof (rule ccontr)
    assume a: "\<not> - n \<le> roundTiesToEven x"
    then have "roundTiesToEven x \<le> - n - 1" by simp
    then have "(of_int (roundTiesToEven x) :: rat) \<le> of_int (- n - 1)" by (simp only: of_int_le_iff)
    with roundTiesToEven_error[of x] assms have "x = of_int (- n)"
      by (auto simp: abs_if split: if_splits)
    then have "roundTiesToEven x = - n" by (simp only: roundTiesToEven_of_int)
    with a show False by simp
  qed
  from up lo show ?thesis by simp
qed

lemma pow2_split53: "pow2 (e + 1) = 2 ^ 53 * pow2 (e - 52)"
proof -
  have "e + 1 = (e - 52) + 53" by simp
  then have "pow2 (e + 1) = pow2 ((e - 52) + 53)" by (simp only:)
  also have "\<dots> = pow2 (e - 52) * pow2 53" by (rule pow2_add)
  also have "pow2 53 = (2 :: rat) ^ 53" using pow2_nat[of 53] by simp
  finally show ?thesis by simp
qed

lemma number_value_exact:
  assumes y: "y = of_int m * pow2 k" and m: "\<bar>m\<bar> < 2 ^ 53" and k: "- 1074 \<le> k"
      and fin: "\<bar>y\<bar> < 2 ^ 1024"
  shows "number_value y = Num y"
proof (cases "y = 0")
  case True
  then show ?thesis by (simp add: number_value_def)
next
  case False
  define E where "E = max (ilog2 y) (- 1022)"
  have Ek: "E - 52 \<le> k"
  proof (cases "ilog2 y \<le> - 1022")
    case True
    then show ?thesis using k by (simp add: E_def)
  next
    case f: False
    from ilog2_bounds[OF False] have "pow2 (ilog2 y) \<le> \<bar>y\<bar>" by simp
    also have "\<bar>y\<bar> = of_int \<bar>m\<bar> * pow2 k"
      using pow2_pos[of k] by (simp add: y abs_mult)
    also have "\<dots> < of_int (2 ^ 53) * pow2 k"
      using m pow2_pos[of k] by (intro mult_strict_right_mono) (simp_all only: of_int_less_iff)
    also have "\<dots> = pow2 (53 + k)"
    proof -
      have "pow2 53 = (2 :: rat) ^ 53" using pow2_nat[of 53] by simp
      then show ?thesis by (simp add: pow2_add)
    qed
    finally have "ilog2 y < 53 + k" by (simp add: pow2_less_iff)
    with f show ?thesis by (simp add: E_def)
  qed
  then obtain j where j: "k = E - 52 + int j" by (metis zle_iff_zadd)
  have "y / pow2 (E - 52) = of_int (m * 2 ^ j)"
    using pow2_pos[of "E - 52"] by (simp add: y j pow2_add pow2_nat)
  then have "roundTiesToEven (y / pow2 (E - 52)) = m * 2 ^ j"
    by (simp only: roundTiesToEven_of_int)
  moreover have "of_int (m * 2 ^ j) * pow2 (E - 52) = y"
    by (simp add: y j pow2_add pow2_nat)
  ultimately show ?thesis
    using False fin by (simp add: number_value_def Let_def E_def[symmetric])
qed

lemma number_value_idem:
  assumes "number_value x = Num y"
  shows "number_value y = Num y"
proof (cases "x = 0")
  case True
  with assms have "y = 0" by (simp add: number_value_def)
  then show ?thesis by (simp add: number_value_def)
next
  case False
  define E where "E = max (ilog2 x) (- 1022)"
  define ulp where "ulp = pow2 (E - 52)"
  define M where "M = roundTiesToEven (x / ulp)"
  have ulp: "0 < ulp" by (simp add: ulp_def pow2_pos)
  from assms False have y: "y = of_int M * ulp" and fin: "\<bar>y\<bar> < 2 ^ 1024"
    by (auto simp: number_value_def Let_def E_def[symmetric] ulp_def[symmetric] M_def[symmetric]
        split: if_splits)
  from ilog2_bounds[OF False] have "\<bar>x\<bar> < pow2 (ilog2 x + 1)" by simp
  also have "\<dots> \<le> pow2 (E + 1)" by (intro pow2_mono) (simp add: E_def)
  also have "\<dots> = of_int (2 ^ 53) * ulp"
    by (simp add: ulp_def pow2_split53)
  finally have "\<bar>x\<bar> / ulp < of_int (2 ^ 53)" using ulp by (simp add: field_simps)
  moreover have "\<bar>ulp\<bar> = ulp" using ulp by simp
  ultimately have "\<bar>x / ulp\<bar> \<le> of_int (2 ^ 53)" by (simp only: abs_divide less_imp_le)
  then have Mb: "\<bar>M\<bar> \<le> 2 ^ 53" unfolding M_def by (rule roundTiesToEven_bound)
  have E: "- 1022 \<le> E" by (simp add: E_def)
  show ?thesis
  proof (cases "\<bar>M\<bar> < 2 ^ 53")
    case True
    show ?thesis
      by (rule number_value_exact[where m = M and k = "E - 52"]) (use y True E fin in \<open>simp_all add: ulp_def\<close>)
  next
    case f: False
    with Mb have "\<bar>M\<bar> = 2 ^ 53" by simp
    then have "M = 2 ^ 53 \<or> M = - (2 ^ 53)" by (auto simp: abs_if split: if_splits)
    then have y': "y = of_int (sgn M) * pow2 (E + 1)"
      by (auto simp: y ulp_def pow2_split53)
    show ?thesis
      by (rule number_value_exact[where m = "sgn M" and k = "E + 1"])
        (use y' E fin in \<open>simp_all add: abs_sgn_eq\<close>)
  qed
qed

lemma times_one:
  assumes "\<exists>x. v = NaN \<or> (\<exists>s. v = Infinity s) \<or> v = number_value x"
  shows "times_number v (Num 1) = v"
proof (cases v)
  case NaN
  then show ?thesis by simp
next
  case (Infinity s)
  then show ?thesis by simp
next
  case (Num y)
  with assms obtain x where "number_value x = Num y" by auto
  then have "number_value y = Num y" by (rule number_value_idem)
  with Num show ?thesis by simp
qed

lemma parseFloat_times_one: "times_number (parseFloat s) (Num 1) = parseFloat s"
  by (rule times_one) (auto simp: parseFloat_def Let_def)

lemma includes_str_iff: "includes_str t p \<longleftrightarrow> (\<exists>a b. t = a @ p @ b)"
proof (induction t)
  case Nil
  then show ?case by auto
next
  case (Cons c cs)
  have s: "startsWith (c # cs) p \<longleftrightarrow> (\<exists>b. c # cs = p @ b)"
    unfolding startsWith_def
    by (metis append_eq_conv_conj append_take_drop_id)
  show ?case
  proof
    assume "includes_str (c # cs) p"
    then consider "startsWith (c # cs) p" | "includes_str cs p" by auto
    then show "\<exists>a b. c # cs = a @ p @ b"
    proof cases
      case 1
      with s obtain b where "c # cs = [] @ p @ b" by auto
      then show ?thesis by blast
    next
      case 2
      with Cons.IH obtain a b where "cs = a @ p @ b" by auto
      then have "c # cs = (c # a) @ p @ b" by simp
      then show ?thesis by blast
    qed
  next
    assume "\<exists>a b. c # cs = a @ p @ b"
    then obtain a b where ab: "c # cs = a @ p @ b" by auto
    show "includes_str (c # cs) p"
    proof (cases a)
      case Nil
      with ab have "startsWith (c # cs) p" by (simp add: startsWith_def)
      then show ?thesis by simp
    next
      case (Cons a0 as)
      with ab have "cs = as @ p @ b" by simp
      with Cons.IH show ?thesis by auto
    qed
  qed
qed

section \<open>Properties of the conversion functions\<close>

text \<open>
  C2 (scale detection of \<^verbatim>\<open>marketCapTextToNum\<close>). As the specification words it, the
  detection is case-insensitive and tries billion before million. The code differs on
  both counts: \<^verbatim>\<open>$1.5B (MCap)\<close> holds both \<^verbatim>\<open>B\<close> and \<^verbatim>\<open>M\<close> and is read as 1.5
  million, where the specification's order gives 1.5 billion; \<^verbatim>\<open>$2.5 bn\<close> holds a
  lower-case \<^verbatim>\<open>b\<close> only and is read as 2.5, where a case-insensitive detection gives
  2.5 billion.
\<close>

theorem scale_detection_counterexample:
  "marketCapTextToNum ''$1.5B (MCap)'' = Num 1500000
   \<and> spec_textToNumber ''$1.5B (MCap)'' = Num 1500000000
   \<and> marketCapTextToNum ''$2.5 bn'' = Num (5 / 2)
   \<and> spec_textToNumber ''$2.5 bn'' = Num 2500000000"
proof -
  have a: "number_value (3 / 2) = Num (3 / 2)"
    by (rule number_value_exact[where m = 3 and k = "- 1"]) (simp_all add: pow2_def)
  have b: "number_value 1500000 = Num 1500000"
    by (rule number_value_exact[where m = 1500000 and k = 0]) (simp_all add: pow2_def)
  have c: "number_value 1500000000 = Num 1500000000"
    by (rule number_value_exact[where m = 1500000000 and k = 0]) (simp_all add: pow2_def)
  have d: "number_value (5 / 2) = Num (5 / 2)"
    by (rule number_value_exact[where m = 5 and k = "- 1"]) (simp_all add: pow2_def)
  have e: "number_value 2500000000 = Num 2500000000"
    by (rule number_value_exact[where m = 2500000000 and k = 0]) (simp_all add: pow2_def)
  have s1: "strip ''$1.5B (MCap)'' = ''1.5''" by (simp add: strip_def isDigit_def)
  have s2: "strip ''$2.5 bn'' = ''2.5''" by (simp add: strip_def isDigit_def)
  have p1: "parseFloat ''1.5'' = Num (3 / 2)"
    by (simp add: parseFloat_def Let_def isDigit_def digits_value_def digit_value_def a)
  have p2: "parseFloat ''2.5'' = Num (5 / 2)"
    by (simp add: parseFloat_def Let_def isDigit_def digits_value_def digit_value_def d)
  have 1: "marketCapTextToNum ''$1.5B (MCap)'' = Num 1500000"
    by (simp add: marketCapTextToNum_def startsWith_def s1 p1 b)
  have 2: "spec_textToNumber ''$1.5B (MCap)'' = Num 1500000000"
    by (simp add: spec_textToNumber_def spec_scale_def lower_char_def startsWith_def s1 p1 c)
  have 3: "marketCapTextToNum ''$2.5 bn'' = Num (5 / 2)"
    by (simp add: marketCapTextToNum_def startsWith_def s2 p2)
  have 4: "spec_textToNumber ''$2.5 bn'' = Num 2500000000"
    by (simp add: spec_textToNumber_def spec_scale_def lower_char_def startsWith_def s2 p2 e)
  from 1 2 3 4 show ?thesis by (intro conjI)
qed

text \<open>
  C2, as the code has it. For every text the scale is found by case-sensitive
  containment, the first match winning in the order: \<^verbatim>\<open>trillion\<close> or \<^verbatim>\<open>T\<close>, a
  factor of \<open>10\<^sup>1\<^sup>2\<close>; then \<^verbatim>\<open>million\<close> or \<^verbatim>\<open>M\<close>, a factor of \<open>10\<^sup>6\<close>; then \<^verbatim>\<open>billion\<close> or
  \<^verbatim>\<open>B\<close>, a factor of \<open>10\<^sup>9\<close>; with no match the factor is one. The result is
  \<^verbatim>\<open>parseFloat\<close> of the text stripped of every character that is not a digit, a point
  or a minus sign, times that factor.
\<close>

theorem scale_detection:
  "marketCapTextToNum t =
     times_number (parseFloat (strip t))
       (Num (if (\<exists>a b. t = a @ ''trillion'' @ b) \<or> (\<exists>a b. t = a @ ''T'' @ b) then 1000000000000
             else if (\<exists>a b. t = a @ ''million'' @ b) \<or> (\<exists>a b. t = a @ ''M'' @ b) then 1000000
             else if (\<exists>a b. t = a @ ''billion'' @ b) \<or> (\<exists>a b. t = a @ ''B'' @ b) then 1000000000
             else 1))"
  by (simp add: marketCapTextToNum_def includes_str_iff parseFloat_times_one)

theorem scale_detection_witness:
  "marketCapTextToNum ''$ 1.25 billion'' = Num 1250000000"
proof -
  have a: "number_value (5 / 4) = Num (5 / 4)"
    by (rule number_value_exact[where m = 5 and k = "- 2"]) (simp_all add: pow2_def)
  have b: "number_value 1250000000 = Num 1250000000"
    by (rule number_value_exact[where m = 1250000000 and k = 0]) (simp_all add: pow2_def)
  have s: "strip ''$ 1.25 billion'' = ''1.25''" by (simp add: strip_def isDigit_def)
  have p: "parseFloat ''1.25'' = Num (5 / 4)"
    by (simp add: parseFloat_def Let_def isDigit_def digits_value_def digit_value_def a)
  note sd = scale_detection[of "''$ 1.25 billion''", unfolded includes_str_iff[symmetric]]
  have "times_number (parseFloat (strip ''$ 1.25 billion''))
       (Num (if includes_str ''$ 1.25 billion'' ''trillion'' \<or> includes_str ''$ 1.25 billion'' ''T''
             then 1000000000000
             else if includes_str ''$ 1.25 billion'' ''million'' \<or> includes_str ''$ 1.25 billion'' ''M''
             then 1000000
             else if includes_str ''$ 1.25 billion'' ''billion'' \<or> includes_str ''$ 1.25 billion'' ''B''
             then 1000000000
             else 1)) = Num 1250000000"
    by (simp add: startsWith_def s p b)
  with sd show ?thesis by (simp only:)
qed

text \<open>
  C7 (boundary law of \<^verbatim>\<open>marketCapNumToText\<close>). The tiers are closed below:
  \<open>10\<^sup>9\<close> gives \<^verbatim>\<open>$1.00 billion\<close>, \<open>10\<^sup>9 - 1\<close> gives \<^verbatim>\<open>$1000.00 million\<close>, and
  2300000000 gives \<^verbatim>\<open>$2.30 billion\<close>. A value of at least \<open>10\<^sup>1\<^sup>2\<close> is its quotient by
  \<open>10\<^sup>1\<^sup>2\<close> under \<^verbatim>\<open>toFixed(2)\<close> followed by \<^verbatim>\<open>trillion\<close>; from \<open>10\<^sup>9\<close> the same with
  \<^verbatim>\<open>billion\<close>, from \<open>10\<^sup>6\<close> with \<^verbatim>\<open>million\<close>; a value below \<open>10\<^sup>6\<close> is the grouped decimal
  string of \<^verbatim>\<open>toLocaleString\<close>.
\<close>

theorem boundary_law:
  "marketCapNumToText (Num (10 ^ 9)) = ''$1.00 billion''
   \<and> marketCapNumToText (Num (10 ^ 9 - 1)) = ''$1000.00 million''
   \<and> marketCapNumToText (Num 2300000000) = ''$2.30 billion''
   \<and> (10 ^ 12 \<le> q \<longrightarrow> marketCapNumToText (Num q) =
          ''$'' @ toFixed2 (divide_number (Num q) (Num 1000000000000)) @ '' trillion'')
   \<and> (10 ^ 9 \<le> q \<and> q < 10 ^ 12 \<longrightarrow> marketCapNumToText (Num q) =
          ''$'' @ toFixed2 (divide_number (Num q) (Num 1000000000)) @ '' billion'')
   \<and> (10 ^ 6 \<le> q \<and> q < 10 ^ 9 \<longrightarrow> marketCapNumToText (Num q) =
          ''$'' @ toFixed2 (divide_number (Num q) (Num 1000000)) @ '' million'')
   \<and> (q < 10 ^ 6 \<longrightarrow> marketCapNumToText (Num q) = ''$'' @ toLocaleString (Num q))"
proof -
  have a: "number_value 1 = Num 1"
    by (rule number_value_exact[where m = 1 and k = 0]) (simp_all add: pow2_def)
  have b: "number_value (999999999 / 1000000) = Num (8796093013411907 / 8796093022208)"
    by (rule number_value_at[where e = 9 and m = 8796093013411907]) (simp_all add: pow2_def)
  have c: "number_value (23 / 10) = Num (2589569785738035 / 1125899906842624)"
    by (rule number_value_at[where e = 1 and m = 5179139571476070]) (simp_all add: pow2_def)
  have 1: "marketCapNumToText (Num (10 ^ 9)) = ''$1.00 billion''"
    by (simp add: marketCapNumToText_def a Let_def padded_def decimal.simps digit_char_def)
  have 2: "marketCapNumToText (Num (10 ^ 9 - 1)) = ''$1000.00 million''"
    by (simp add: marketCapNumToText_def b Let_def padded_def decimal.simps digit_char_def)
  have 3: "marketCapNumToText (Num 2300000000) = ''$2.30 billion''"
    by (simp add: marketCapNumToText_def c Let_def padded_def decimal.simps digit_char_def)
  have 4: "10 ^ 12 \<le> q \<longrightarrow> marketCapNumToText (Num q) =
          ''$'' @ toFixed2 (divide_number (Num q) (Num 1000000000000)) @ '' trillion''"
    by (simp add: marketCapNumToText_def)
  have 5: "10 ^ 9 \<le> q \<and> q < 10 ^ 12 \<longrightarrow> marketCapNumToText (Num q) =
          ''$'' @ toFixed2 (divide_number (Num q) (Num 1000000000)) @ '' billion''"
    by (simp add: marketCapNumToText_def)
  have 6: "10 ^ 6 \<le> q \<and> q < 10 ^ 9 \<longrightarrow> marketCapNumToText (Num q) =
          ''$'' @ toFixed2 (divide_number (Num q) (Num 1000000)) @ '' million''"
    by (simp add: marketCapNumToText_def)
  have 7: "q < 10 ^ 6 \<longrightarrow> marketCapNumToText (Num q) = ''$'' @ toLocaleString (Num q)"
    by (simp add: marketCapNumToText_def)
  from 1 2 3 4 5 6 7 show ?thesis by (intro conjI)
qed

theorem boundary_law_witness:
  "marketCapNumToText (Num 5250000000000) = ''$5.25 trillion''
   \<and> marketCapNumToText (Num 999999) = ''$999,999''"
proof -
  have a: "number_value (21 / 4) = Num (21 / 4)"
    by (rule number_value_exact[where m = 21 and k = "- 2"]) (simp_all add: pow2_def)
  have h1: "(10 :: rat) ^ 12 \<le> 5250000000000" by simp
  have h2: "(999999 :: rat) < 10 ^ 6" by simp
  from boundary_law[of 5250000000000] h1
  have 1: "marketCapNumToText (Num 5250000000000) =
          ''$'' @ toFixed2 (divide_number (Num 5250000000000) (Num 1000000000000)) @ '' trillion''"
    by blast
  from boundary_law[of 999999] h2
  have 2: "marketCapNumToText (Num 999999) = ''$'' @ toLocaleString (Num 999999)"
    by blast
  have 3: "toFixed2 (divide_number (Num 5250000000000) (Num 1000000000000)) = ''5.25''"
    by (simp add: a Let_def padded_def decimal.simps digit_char_def)
  have 4: "toLocaleString (Num 999999) = ''999,999''"
    by (simp add: Let_def padded_def decimal.simps digit_char_def group3.simps fraction3_def)
  from 1 2 3 4 show ?thesis by simp
qed

section \<open>Properties of the ranking scrapers\<close>

lemma each_row_eq:
  "each_row push rows acc num =
     acc @ map push (take (10 - num) (filter (\<lambda>el. \<not> sponsored el) rows))" if "num < 10"
  using that
proof (induction rows arbitrary: acc num)
  case Nil
  then show ?case by simp
next
  case (Cons el rows)
  show ?case
  proof (cases "sponsored el")
    case True
    then show ?thesis using Cons by simp
  next
    case False
    show ?thesis
    proof (cases "num + 1 \<ge> 10")
      case True
      with Cons.prems have "num = 9" by simp
      with False show ?thesis by simp
    next
      case f: False
      then have "Suc num < 10" by simp
      moreover from f have "10 - num = Suc (10 - Suc num)" by simp
      ultimately show ?thesis using Cons.IH[of "Suc num"] False f
        by (simp del: diff_Suc_Suc)
    qed
  qed
qed

lemma each_row_ten:
  "each_row push rows [] 0 = map push (take 10 (filter (\<lambda>el. \<not> sponsored el) rows))"
  by (simp add: each_row_eq)

lemma scrapeTopGainers_result:
  "fst (scrapeTopGainers fetch w) = Inr d \<Longrightarrow>
    \<exists>rows. fst (fetch ''https://coinranking.com/coins/gainers'' ''#coins-table tbody tr'' w) = Inr rows
      \<and> d = Array (map coin_of_row (take 10 (filter (\<lambda>el. \<not> sponsored el) rows)))"
  by (auto simp: scrapeTopGainers_def each_row_ten split: prod.splits sum.splits)

lemma scrapeTopLosers_result:
  "fst (scrapeTopLosers fetch w) = Inr d \<Longrightarrow>
    \<exists>rows. fst (fetch ''https://coinranking.com/coins/losers'' ''#coins-table tbody tr'' w) = Inr rows
      \<and> d = Array (map coin_of_row (take 10 (filter (\<lambda>el. \<not> sponsored el) rows)))"
  by (auto simp: scrapeTopLosers_def each_row_ten split: prod.splits sum.splits)

lemma allTimeHighs_result:
  "fst (allTimeHighs fetch w) = Inr d \<Longrightarrow>
    \<exists>rows. fst (fetch ''https://coinranking.com/coins/all-time-highs''
                 ''#all-time-highs-table tbody tr'' w) = Inr rows
      \<and> d = Array (map high_of_row (take 10 (filter (\<lambda>el. \<not> sponsored el) rows)))"
  by (auto simp: allTimeHighs_def each_row_ten split: prod.splits sum.splits)

lemma list_route_capped:
  assumes scr: "\<And>w d. fst (scraper w) = Inr d \<Longrightarrow> \<exists>rs. d = Array rs \<and> length rs \<le> N"
      and inv: "\<And>e. map_of cache key = Some e \<Longrightarrow>
                  \<exists>rs. data (entry_data e) = Array rs \<and> length rs \<le> N"
      and run: "list_route key scraper nf em clk cache w = ((code, body), cache', w')"
  shows "(\<forall>d. body_data body = Some d \<longrightarrow> (\<exists>rs. d = Array rs \<and> length rs \<le> N))
       \<and> (\<forall>n. body_count body = Some n \<longrightarrow> n \<le> N)
       \<and> (\<forall>e. map_of cache' key = Some e \<longrightarrow>
              (\<exists>rs. data (entry_data e) = Array rs \<and> length rs \<le> N))"
proof (cases "\<exists>e. map_of cache key = Some e \<and> at_check clk - entry_timestamp e < CACHE_DURATION")
  case True
  then obtain e where e: "map_of cache key = Some e"
    "at_check clk - entry_timestamp e < CACHE_DURATION" by blast
  from inv[OF e(1)] obtain rs where rs: "data (entry_data e) = Array rs" "length rs \<le> N" by blast
  have g: "getCachedData key scraper clk cache w = (Inr (entry_data e), cache, w)"
    using e by (simp add: getCachedData_def)
  from run g rs have c': "cache' = cache"
    by (auto simp: list_route_def split: if_splits)
  from run g rs have "body_data body = None \<and> body_count body = None
      \<or> body_data body = Some (Array rs) \<and> body_count body = Some (length rs)"
    by (auto simp: list_route_def spread_def split: if_splits)
  with rs c' inv show ?thesis by auto
next
  case False
  obtain r w1 where s: "scraper w = (r, w1)" by (cases "scraper w")
  show ?thesis
  proof (cases r)
    case (Inl err)
    with False s have g: "getCachedData key scraper clk cache w = (Inl err, cache, w1)"
      by (auto simp: getCachedData_cases)
    with run have c': "cache' = cache" by (simp add: list_route_def)
    from run g have b: "(code, body) = handleErrorWithCacheFallback key err em (at_response clk) cache"
      by (auto simp: list_route_def)
    show ?thesis
    proof (cases "map_of cache key")
      case None
      with b c' show ?thesis by (simp add: handleErrorWithCacheFallback_def)
    next
      case (Some e)
      from inv[OF Some] obtain rs where "data (entry_data e) = Array rs" "length rs \<le> N" by blast
      with b c' Some inv show ?thesis
        by (auto simp: handleErrorWithCacheFallback_def spread_def)
    qed
  next
    case (Inr d)
    with s scr[of w d] obtain rs where rs: "d = Array rs" "length rs \<le> N" by auto
    let ?env = "\<lparr>status = ''success'', timestamp = ISOString (at_envelope clk), data = d\<rparr>"
    from False s Inr have g: "getCachedData key scraper clk cache w =
        (Inr ?env, AList.update key \<lparr>entry_data = ?env, entry_timestamp = at_store clk\<rparr> cache, w1)"
      by (auto simp: getCachedData_cases)
    with run have c': "cache' = AList.update key \<lparr>entry_data = ?env, entry_timestamp = at_store clk\<rparr> cache"
      by (auto simp: list_route_def split: if_splits)
    from run g rs have "body_data body = None \<and> body_count body = None
      \<or> body_data body = Some (Array rs) \<and> body_count body = Some (length rs)"
      by (auto simp: list_route_def spread_def split: if_splits)
    with rs c' show ?thesis by (auto simp: AList.update_conv')
  qed
qed

text \<open>
  C10 (list-size cap). A successful run of \<^verbatim>\<open>scrapeTopGainers\<close>, \<^verbatim>\<open>scrapeTopLosers\<close>
  or \<^verbatim>\<open>allTimeHighs\<close> returns the objects of the first ten rows that are not
  sponsored, so at most ten. The three routes never serve more: when the entry stored
  under the route's key, if there is one, holds at most ten records, the list and the
  count of the response are at most ten, and so is the entry stored afterwards. The
  empty map the process starts with holds no entry.
\<close>

theorem ranking_lists_capped:
  fixes fetch :: "'w fetch_rows" and cache :: "(market_record, 'a) cache"
  shows
  "(\<forall>d. fst (scrapeTopGainers fetch w) = Inr d \<longrightarrow>
      (\<exists>rows. fst (fetch ''https://coinranking.com/coins/gainers'' ''#coins-table tbody tr'' w)
                 = Inr rows
         \<and> d = Array (map coin_of_row (take 10 (filter (\<lambda>el. \<not> sponsored el) rows))))
      \<and> (\<exists>rs. d = Array rs \<and> length rs \<le> 10))
   \<and> (\<forall>d. fst (scrapeTopLosers fetch w) = Inr d \<longrightarrow>
      (\<exists>rows. fst (fetch ''https://coinranking.com/coins/losers'' ''#coins-table tbody tr'' w)
                 = Inr rows
         \<and> d = Array (map coin_of_row (take 10 (filter (\<lambda>el. \<not> sponsored el) rows))))
      \<and> (\<exists>rs. d = Array rs \<and> length rs \<le> 10))
   \<and> (\<forall>d. fst (allTimeHighs fetch w) = Inr d \<longrightarrow>
      (\<exists>rows. fst (fetch ''https://coinranking.com/coins/all-time-highs''
                       ''#all-time-highs-table tbody tr'' w) = Inr rows
         \<and> d = Array (map high_of_row (take 10 (filter (\<lambda>el. \<not> sponsored el) rows))))
      \<and> (\<exists>rs. d = Array rs \<and> length rs \<le> 10))
   \<and> (\<forall>route key code body cache' w'.
        (route, key) \<in> {(top_gainers_route, ''top-gainers''), (top_losers_route, ''top-losers''),
                         (all_time_highs_route, ''all-time-highs'')}
        \<and> (\<forall>e. map_of cache key = Some e \<longrightarrow>
              (\<exists>rs. data (entry_data e) = Array rs \<and> length rs \<le> 10))
        \<and> route fetch clk cache w = ((code, body), cache', w') \<longrightarrow>
          (\<forall>d. body_data body = Some d \<longrightarrow> (\<exists>rs. d = Array rs \<and> length rs \<le> 10))
        \<and> (\<forall>n. body_count body = Some n \<longrightarrow> n \<le> 10)
        \<and> (\<forall>e. map_of cache' key = Some e \<longrightarrow>
              (\<exists>rs. data (entry_data e) = Array rs \<and> length rs \<le> 10)))"
proof -
  have a: "\<exists>rs. d = Array rs \<and> length rs \<le> 10" if "fst (scrapeTopGainers fetch w) = Inr d" for d w
    using scrapeTopGainers_result[OF that] by auto
  have b: "\<exists>rs. d = Array rs \<and> length rs \<le> 10" if "fst (scrapeTopLosers fetch w) = Inr d" for d w
    using scrapeTopLosers_result[OF that] by auto
  have c: "\<exists>rs. d = Array rs \<and> length rs \<le> 10" if "fst (allTimeHighs fetch w) = Inr d" for d w
    using allTimeHighs_result[OF that] by auto
  have r: "(\<forall>d. body_data body = Some d \<longrightarrow> (\<exists>rs. d = Array rs \<and> length rs \<le> 10))
        \<and> (\<forall>n. body_count body = Some n \<longrightarrow> n \<le> 10)
        \<and> (\<forall>e. map_of cache' key = Some e \<longrightarrow>
              (\<exists>rs. data (entry_data e) = Array rs \<and> length rs \<le> 10))"
    if sel: "(route, key) \<in> {(top_gainers_route, ''top-gainers''), (top_losers_route, ''top-losers''),
                         (all_time_highs_route, ''all-time-highs'')}"
      and inv: "\<forall>e. map_of cache key = Some e \<longrightarrow>
              (\<exists>rs. data (entry_data e) = Array rs \<and> length rs \<le> 10)"
      and run: "route fetch clk cache w = ((code, body), cache', w')"
    for route key code body cache' w'
  proof -
    from inv have inv': "\<And>e. map_of cache key = Some e \<Longrightarrow>
        \<exists>rs. data (entry_data e) = Array rs \<and> length rs \<le> 10" by blast
    from sel consider "route = top_gainers_route" "key = ''top-gainers''"
      | "route = top_losers_route" "key = ''top-losers''"
      | "route = all_time_highs_route" "key = ''all-time-highs''" by auto
    then show ?thesis
    proof cases
      case 1
      from run 1 have run': "list_route ''top-gainers'' (scrapeTopGainers fetch)
          ''No top gainers found'' ''Error fetching top gainers data'' clk cache w
          = ((code, body), cache', w')"
        by (simp add: top_gainers_route_def)
      show ?thesis unfolding 1(2)
        by (rule list_route_capped[where scraper = "scrapeTopGainers fetch" and cache = cache
              and w = w, OF _ _ run']) (use a inv' 1 in blast)+
    next
      case 2
      from run 2 have run': "list_route ''top-losers'' (scrapeTopLosers fetch)
          ''No top losers found'' ''Error fetching top losers data'' clk cache w
          = ((code, body), cache', w')"
        by (simp add: top_losers_route_def)
      show ?thesis unfolding 2(2)
        by (rule list_route_capped[where scraper = "scrapeTopLosers fetch" and cache = cache
              and w = w, OF _ _ run']) (use b inv' 2 in blast)+
    next
      case 3
      from run 3 have run': "list_route ''all-time-highs'' (allTimeHighs fetch)
          ''No all-time highs data found'' ''Error fetching all-time highs data'' clk cache w
          = ((code, body), cache', w')"
        by (simp add: all_time_highs_route_def)
      show ?thesis unfolding 3(2)
        by (rule list_route_capped[where scraper = "allTimeHighs fetch" and cache = cache
              and w = w, OF _ _ run']) (use c inv' 3 in blast)+
    qed
  qed
  have g1: "(\<exists>rows. fst (fetch ''https://coinranking.com/coins/gainers'' ''#coins-table tbody tr'' w)
                 = Inr rows
         \<and> d = Array (map coin_of_row (take 10 (filter (\<lambda>el. \<not> sponsored el) rows))))
      \<and> (\<exists>rs. d = Array rs \<and> length rs \<le> 10)"
    if "fst (scrapeTopGainers fetch w) = Inr d" for d
    using scrapeTopGainers_result[OF that] a[OF that] by (rule conjI)
  have g2: "(\<exists>rows. fst (fetch ''https://coinranking.com/coins/losers'' ''#coins-table tbody tr'' w)
                 = Inr rows
         \<and> d = Array (map coin_of_row (take 10 (filter (\<lambda>el. \<not> sponsored el) rows))))
      \<and> (\<exists>rs. d = Array rs \<and> length rs \<le> 10)"
    if "fst (scrapeTopLosers fetch w) = Inr d" for d
    using scrapeTopLosers_result[OF that] b[OF that] by (rule conjI)
  have g3: "(\<exists>rows. fst (fetch ''https://coinranking.com/coins/all-time-highs''
                       ''#all-time-highs-table tbody tr'' w) = Inr rows
         \<and> d = Array (map high_of_row (take 10 (filter (\<lambda>el. \<not> sponsored el) rows))))
      \<and> (\<exists>rs. d = Array rs \<and> length rs \<le> 10)"
    if "fst (allTimeHighs fetch w) = Inr d" for d
    using allTimeHighs_result[OF that] c[OF that] by (rule conjI)
  show ?thesis
  proof (intro conjI allI impI)
    fix d assume "fst (scrapeTopGainers fetch w) = Inr d"
    from g1[OF this] show "\<exists>rows. fst (fetch ''https://coinranking.com/coins/gainers'' ''#coins-table tbody tr'' w)
                 = Inr rows
         \<and> d = Array (map coin_of_row (take 10 (filter (\<lambda>el. \<not> sponsored el) rows)))"
      and "\<exists>rs. d = Array rs \<and> length rs \<le> 10" by blast+
  next
    fix d assume "fst (scrapeTopLosers fetch w) = Inr d"
    from g2[OF this] show "\<exists>rows. fst (fetch ''https://coinranking.com/coins/losers'' ''#coins-table tbody tr'' w)
                 = Inr rows
         \<and> d = Array (map coin_of_row (take 10 (filter (\<lambda>el. \<not> sponsored el) rows)))"
      and "\<exists>rs. d = Array rs \<and> length rs \<le> 10" by blast+
  next
    fix d assume "fst (allTimeHighs fetch w) = Inr d"
    from g3[OF this] show "\<exists>rows. fst (fetch ''https://coinranking.com/coins/all-time-highs''
                       ''#all-time-highs-table tbody tr'' w) = Inr rows
         \<and> d = Array (map high_of_row (take 10 (filter (\<lambda>el. \<not> sponsored el) rows)))"
      and "\<exists>rs. d = Array rs \<and> length rs \<le> 10" by blast+
  next
    fix route :: "'w fetch_rows \<Rightarrow> clock_reads \<Rightarrow> (market_record, 'a) cache \<Rightarrow> 'w
        \<Rightarrow> (market_record, 'a) response \<times> (market_record, 'a) cache \<times> 'w"
      and key code body cache' w' d
    assume h: "(route, key) \<in> {(top_gainers_route, ''top-gainers''), (top_losers_route, ''top-losers''),
                         (all_time_highs_route, ''all-time-highs'')}
        \<and> (\<forall>e. map_of cache key = Some e \<longrightarrow>
              (\<exists>rs. data (entry_data e) = Array rs \<and> length rs \<le> 10))
        \<and> route fetch clk cache w = ((code, body), cache', w')"
    assume "body_data body = Some d"
    with r[of route key code body cache' w'] h
    show "\<exists>rs. d = Array rs \<and> length rs \<le> 10" by blast
  next
    fix route :: "'w fetch_rows \<Rightarrow> clock_reads \<Rightarrow> (market_record, 'a) cache \<Rightarrow> 'w
        \<Rightarrow> (market_record, 'a) response \<times> (market_record, 'a) cache \<times> 'w"
      and key code body cache' w' n
    assume h: "(route, key) \<in> {(top_gainers_route, ''top-gainers''), (top_losers_route, ''top-losers''),
                         (all_time_highs_route, ''all-time-highs'')}
        \<and> (\<forall>e. map_of cache key = Some e \<longrightarrow>
              (\<exists>rs. data (entry_data e) = Array rs \<and> length rs \<le> 10))
        \<and> route fetch clk cache w = ((code, body), cache', w')"
    assume "body_count body = Some n"
    with r[of route key code body cache' w'] h
    show "n \<le> 10" by blast
  next
    fix route :: "'w fetch_rows \<Rightarrow> clock_reads \<Rightarrow> (market_record, 'a) cache \<Rightarrow> 'w
        \<Rightarrow> (market_record, 'a) response \<times> (market_record, 'a) cache \<times> 'w"
      and key code body cache' w' e
    assume h: "(route, key) \<in> {(top_gainers_route, ''top-gainers''), (top_losers_route, ''top-losers''),
                         (all_time_highs_route, ''all-time-highs'')}
        \<and> (\<forall>e. map_of cache key = Some e \<longrightarrow>
              (\<exists>rs. data (entry_data e) = Array rs \<and> length rs \<le> 10))
        \<and> route fetch clk cache w = ((code, body), cache', w')"
    assume "map_of cache' key = Some e"
    with r[of route key code body cache' w'] h
    show "\<exists>rs. data (entry_data e) = Array rs \<and> length rs \<le> 10" by blast
  qed
qed

theorem ranking_lists_capped_witness:
  "fst (scrapeTopGainers
         (\<lambda>url selector (n::nat).
            (Inr (\<lparr>sponsored = True, name_text = ''Ad'', symbol_text = '''', price_text = '''',
                     marketCap_text = '''', change_text = '''', semibold_text = ''''\<rparr>
                  # replicate 11
                     \<lparr>sponsored = False, name_text = ''Pepe'', symbol_text = ''PEPE'',
                      price_text = ''$ 0.25'', marketCap_text = ''$ 4.5 billion'',
                      change_text = ''+12.5%'', semibold_text = ''''\<rparr>), Suc n)) 0)
   = (Inr (Array (replicate 10
        (coin_of_row \<lparr>sponsored = False, name_text = ''Pepe'', symbol_text = ''PEPE'',
                      price_text = ''$ 0.25'', marketCap_text = ''$ 4.5 billion'',
                      change_text = ''+12.5%'', semibold_text = ''''\<rparr>)))
      :: error + (market_record, unit) payload)"
proof -
  let ?ad = "\<lparr>sponsored = True, name_text = ''Ad'', symbol_text = '''', price_text = '''',
                     marketCap_text = '''', change_text = '''', semibold_text = ''''\<rparr>"
  let ?r = "\<lparr>sponsored = False, name_text = ''Pepe'', symbol_text = ''PEPE'',
                      price_text = ''$ 0.25'', marketCap_text = ''$ 4.5 billion'',
                      change_text = ''+12.5%'', semibold_text = ''''\<rparr>"
  let ?fetch = "\<lambda>(url::string) (selector::string) (n::nat). (Inr (?ad # replicate 11 ?r) :: error + row list, Suc n)"
  let ?d = "Array (each_row coin_of_row (?ad # replicate 11 ?r) [] 0) :: (market_record, unit) payload"
  have h: "fst (scrapeTopGainers ?fetch 0) = Inr ?d"
    by (simp add: scrapeTopGainers_def)
  from ranking_lists_capped[where fetch = ?fetch and w = 0 and cache = "[]", THEN conjunct1,
      THEN spec, of ?d, THEN mp, OF h, THEN conjunct1]
  have "?d = Array (map coin_of_row (take 10 (filter (\<lambda>el. \<not> sponsored el) (?ad # replicate 11 ?r))))"
    by simp
  then have "?d = Array (replicate 10 (coin_of_row ?r))" by simp
  with h show ?thesis by simp
qed

end
